theory Spec2Isabelle
  imports Complex_Main "HOL-Library.AList"
begin

section \<open>RateLimiter (src/utils/walletSecurity.ts)\<close>

text \<open>
  The class keeps the timestamps of the admitted calls in the array \<open>calls\<close>.
  \<open>Date.now()\<close> is an input of the model: every operation takes the current time in
  milliseconds as its first argument. Timestamps and the two configuration numbers are
  integers.
\<close>

record RateLimiter =
  calls :: "int list"
  maxCalls :: int
  timeWindow :: int

definition newRateLimiter :: "int \<Rightarrow> int \<Rightarrow> RateLimiter" where
  "newRateLimiter mc tw = \<lparr>calls = [], maxCalls = mc, timeWindow = tw\<rparr>"

text \<open>\<open>this.calls.filter(callTime => now - callTime < this.timeWindow)\<close>\<close>

definition prune :: "int \<Rightarrow> RateLimiter \<Rightarrow> int list" where
  "prune now r = filter (\<lambda>callTime. now - callTime < timeWindow r) (calls r)"

definition canMakeCall :: "int \<Rightarrow> RateLimiter \<Rightarrow> bool \<times> RateLimiter" where
  "canMakeCall now r =
     (let kept = prune now r in
      if int (length kept) < maxCalls r
      then (True, r\<lparr>calls := kept @ [now]\<rparr>)
      else (False, r\<lparr>calls := kept\<rparr>))"

definition getRemainingCalls :: "int \<Rightarrow> RateLimiter \<Rightarrow> int \<times> RateLimiter" where
  "getRemainingCalls now r =
     (let kept = prune now r in (max 0 (maxCalls r - int (length kept)), r\<lparr>calls := kept\<rparr>))"

definition getResetTime :: "RateLimiter \<Rightarrow> int" where
  "getResetTime r = (case calls r of [] \<Rightarrow> 0 | c # _ \<Rightarrow> c + timeWindow r)"

text \<open>
  A sequence of \<open>canMakeCall()\<close> invocations, one per element of the list of times,
  on one limiter. The result pairs the limiter after the last call with the timestamps
  of the invocations that returned true, in call order.
\<close>

fun callSequence :: "RateLimiter \<Rightarrow> int list \<Rightarrow> int list \<Rightarrow> RateLimiter \<times> int list" where
  "callSequence r admitted [] = (r, admitted)"
| "callSequence r admitted (now # rest) =
     (case canMakeCall now r of
        (ok, r') \<Rightarrow> callSequence r' (if ok then admitted @ [now] else admitted) rest)"

definition admittedCalls :: "int \<Rightarrow> int \<Rightarrow> int list \<Rightarrow> int list" where
  "admittedCalls mc tw nows = snd (callSequence (newRateLimiter mc tw) [] nows)"

definition limiterAfter :: "int \<Rightarrow> int \<Rightarrow> int list \<Rightarrow> RateLimiter" where
  "limiterAfter mc tw nows = fst (callSequence (newRateLimiter mc tw) [] nows)"

text \<open>The admitted calls whose timestamp lies in the trailing window \<open>(T - w, T]\<close>.\<close>

definition inWindow :: "int \<Rightarrow> int \<Rightarrow> int list \<Rightarrow> int list" where
  "inWindow w T ts = filter (\<lambda>t. T - t < w \<and> t \<le> T) ts"

text \<open>
  The invariant of a call sequence started on a fresh limiter: the configuration is
  unchanged, every admitted timestamp is one of the call times, pruning the retained
  array at any later time gives the same result as pruning the whole admission history,
  the retained array fits the budget, and so does every trailing window.
\<close>

definition limiterInv :: "int \<Rightarrow> int \<Rightarrow> int list \<Rightarrow> RateLimiter \<Rightarrow> int list \<Rightarrow> bool" where
  "limiterInv mc tw ts r adm \<longleftrightarrow>
     maxCalls r = mc \<and> timeWindow r = tw \<and> set adm \<subseteq> set ts \<and>
     (\<forall>t'. (\<forall>x \<in> set ts. x \<le> t') \<longrightarrow>
         filter (\<lambda>c. t' - c < tw) (calls r) = filter (\<lambda>c. t' - c < tw) adm) \<and>
     int (length (calls r)) \<le> mc \<and>
     (\<forall>T. int (length (inWindow tw T adm)) \<le> mc)"

section \<open>WebSocketService (src/services/websocketService.ts)\<close>

text \<open>
  A \<open>PublicKey\<close> is identified with its base-58 string, which is the key of the
  \<open>subscriptions\<close> map. A callback is an opaque name. The \<open>unsubscribe\<close> closure of
  an \<open>AccountSubscription\<close> captures the upstream subscription id and the key, so it
  is determined by the other fields and is modelled by the function \<open>unsubscribe\<close>
  below.
\<close>

type_synonym key = string
type_synonym callback = nat

record AccountSubscription =
  sub_id :: nat
  publicKey :: key
  callback :: callback

datatype event = Connected | Disconnected | Reconnected | ReconnectionFailed

text \<open>
  What the service does to the outside, in order: events emitted, the delay handed to
  \<open>setTimeout\<close>, and the calls on the web3.js \<open>Connection\<close>.
\<close>

datatype effect =
    Emit event
  | SetTimeout nat
  | OnAccountChange key nat
  | OnAccountChangeThrew key
  | RemoveAccountChangeListener nat

datatype error = UpstreamError

text \<open>
  The session: the fields of the class (the \<open>Map\<close> as an association list in
  insertion order), followed by the state of the \<open>Connection\<close> it talks to (the next
  subscription id, the listeners that are registered and not removed, the number of
  \<open>onAccountChange\<close> calls made so far), the number of reconnection timers that are set
  and have not fired yet, and the effects so far.
\<close>

record session =
  subscriptions :: "(key \<times> AccountSubscription) list"
  isConnected :: bool
  reconnectAttempts :: nat
  maxReconnectAttempts :: nat
  reconnectDelay :: nat
  nextSubscriptionId :: nat
  accountListeners :: "(nat \<times> key) list"
  accountCalls :: nat
  pendingTimers :: nat
  effects :: "effect list"

definition newSession :: session where
  "newSession = \<lparr>subscriptions = [], isConnected = False, reconnectAttempts = 0,
     maxReconnectAttempts = 5, reconnectDelay = 1000, nextSubscriptionId = 0,
     accountListeners = [], accountCalls = 0, pendingTimers = 0, effects = []\<rparr>"

definition emit :: "event \<Rightarrow> session \<Rightarrow> session" where
  "emit e s = s\<lparr>effects := effects s @ [Emit e]\<rparr>"

text \<open>
  The closure returned by \<open>subscribeToAccount\<close>:
  \<open>removeAccountChangeListener(subscriptionId); subscriptions.delete(key)\<close>.
\<close>

definition unsubscribe :: "AccountSubscription \<Rightarrow> session \<Rightarrow> session" where
  "unsubscribe sub s =
     s\<lparr>accountListeners := filter (\<lambda>l. fst l \<noteq> sub_id sub) (accountListeners s),
       effects := effects s @ [RemoveAccountChangeListener (sub_id sub)],
       subscriptions := AList.delete (publicKey sub) (subscriptions s)\<rparr>"

text \<open>
  \<open>subscribeToAccount\<close>. Whether \<open>connection.onAccountChange\<close> returns or throws is
  decided by the environment: \<open>up n\<close> tells whether the call made after \<open>n\<close> earlier
  ones succeeds. On success the listener is registered upstream and the subscription is
  stored with \<open>Map.set\<close>, which replaces the value of a key that is present and appends
  otherwise. On failure the error is rethrown.
\<close>

definition subscribeToAccount ::
  "(nat \<Rightarrow> bool) \<Rightarrow> key \<Rightarrow> callback \<Rightarrow> session \<Rightarrow> (error + AccountSubscription) \<times> session" where
  "subscribeToAccount up pk cb s =
     (let s1 = s\<lparr>accountCalls := accountCalls s + 1\<rparr> in
      if up (accountCalls s)
      then
        (let subscriptionId = nextSubscriptionId s1;
             s2 = s1\<lparr>nextSubscriptionId := subscriptionId + 1,
                     accountListeners := accountListeners s1 @ [(subscriptionId, pk)],
                     effects := effects s1 @ [OnAccountChange pk subscriptionId]\<rparr>;
             subscription = \<lparr>sub_id = subscriptionId, publicKey = pk, callback = cb\<rparr>
         in (Inr subscription,
             s2\<lparr>subscriptions := AList.update pk subscription (subscriptions s2)\<rparr>))
      else (Inl UpstreamError, s1\<lparr>effects := effects s1 @ [OnAccountChangeThrew pk]\<rparr>))"

text \<open>\<open>subscribeToWallet\<close> wraps the callback and delegates.\<close>

definition subscribeToWallet ::
  "(nat \<Rightarrow> bool) \<Rightarrow> key \<Rightarrow> callback \<Rightarrow> session \<Rightarrow> (error + AccountSubscription) \<times> session" where
  "subscribeToWallet up walletPublicKey onWalletUpdate s =
     subscribeToAccount up walletPublicKey onWalletUpdate s"

text \<open>
  \<open>subscribeToPositions\<close>: one \<open>subscribeToAccount\<close> per position account; a failure is
  logged and the loop goes on. The result is the list of collected handles.
\<close>

fun subscribeToPositions ::
  "(nat \<Rightarrow> bool) \<Rightarrow> key list \<Rightarrow> callback \<Rightarrow> session \<Rightarrow> AccountSubscription list \<times> session" where
  "subscribeToPositions up [] cb s = ([], s)"
| "subscribeToPositions up (positionAccount # rest) cb s =
     (case subscribeToAccount up positionAccount cb s of
        (Inr h, s') \<Rightarrow> (case subscribeToPositions up rest cb s' of (hs, s'') \<Rightarrow> (h # hs, s''))
      | (Inl e, s') \<Rightarrow> subscribeToPositions up rest cb s')"

text \<open>
  \<open>unsubscribeAll\<close>: \<open>forEach\<close> invokes the handle of every entry (each removes its own
  entry only, keys being unique in a \<open>Map\<close>), then the map is cleared.
\<close>

definition unsubscribeAll :: "session \<Rightarrow> session" where
  "unsubscribeAll s =
     (fold (\<lambda>subscription. unsubscribe subscription) (map snd (subscriptions s)) s)
       \<lparr>subscriptions := []\<rparr>"

text \<open>
  The loop of the timer callback of \<open>handleReconnection\<close>:
  \<open>for (const sub of subscriptionsToRestore) await this.subscribeToAccount(...)\<close>.
  The first throw leaves the loop.
\<close>

fun restore :: "(nat \<Rightarrow> bool) \<Rightarrow> AccountSubscription list \<Rightarrow> session \<Rightarrow> (error + unit) \<times> session" where
  "restore up [] s = (Inr (), s)"
| "restore up (sub # rest) s =
     (case subscribeToAccount up (publicKey sub) (callback sub) s of
        (Inr h, s') \<Rightarrow> restore up rest s'
      | (Inl e, s') \<Rightarrow> (Inl e, s'))"

text \<open>
  \<open>handleReconnection\<close> gives up when the attempt counter has reached the maximum;
  otherwise it counts the attempt, hands the callback to \<open>setTimeout\<close> with the backoff
  delay and returns. The callback runs later, as a step of its own.
\<close>

definition handleReconnection :: "session \<Rightarrow> session" where
  "handleReconnection s =
     (if reconnectAttempts s \<ge> maxReconnectAttempts s
      then emit ReconnectionFailed s
      else
        (let s1 = s\<lparr>reconnectAttempts := reconnectAttempts s + 1\<rparr>;
             delay = reconnectDelay s1 * 2 ^ (reconnectAttempts s1 - 1)
         in s1\<lparr>effects := effects s1 @ [SetTimeout delay],
               pendingTimers := pendingTimers s1 + 1\<rparr>))"

text \<open>
  The callback given to \<open>setTimeout\<close>: snapshot the map, clear it, re-subscribe every
  snapshotted entry and emit \<open>reconnected\<close>; a throw is caught and
  \<open>handleReconnection\<close> is called again. The callback reads the session as it is when
  the timer fires. Its awaits are on \<open>subscribeToAccount\<close> only, so it is one step.
\<close>

definition timerCallback :: "(nat \<Rightarrow> bool) \<Rightarrow> session \<Rightarrow> session" where
  "timerCallback up s =
     (let subscriptionsToRestore = map snd (subscriptions s);
          s3 = s\<lparr>subscriptions := []\<rparr>
      in case restore up subscriptionsToRestore s3 of
           (Inr u, s4) \<Rightarrow> emit Reconnected s4
         | (Inl e, s4) \<Rightarrow> handleReconnection s4)"

text \<open>
  One tick of the health monitor (\<open>setupConnectionMonitoring\<close>); \<open>probeOk\<close> tells
  whether \<open>connection.getSlot()\<close> returned.
\<close>

definition monitorTick :: "bool \<Rightarrow> session \<Rightarrow> session" where
  "monitorTick probeOk s =
     (if probeOk
      then (if \<not> isConnected s
            then emit Connected (s\<lparr>isConnected := True, reconnectAttempts := 0\<rparr>)
            else s)
      else (if isConnected s
            then handleReconnection (emit Disconnected (s\<lparr>isConnected := False\<rparr>))
            else s))"

text \<open>
  The service is driven by the event loop. Its events are the results of the probes of
  the 5 second interval and the firings of pending reconnection timers, in the order in
  which the event loop delivers them; all reconnection timers carry the same callback,
  so a firing only needs one of them to be pending.
\<close>

datatype ws_event = Probe bool | TimerFires

fun step :: "(nat \<Rightarrow> bool) \<Rightarrow> ws_event \<Rightarrow> session \<Rightarrow> session" where
  "step up (Probe probeOk) s = monitorTick probeOk s"
| "step up TimerFires s =
     (if pendingTimers s = 0 then s
      else timerCallback up (s\<lparr>pendingTimers := pendingTimers s - 1\<rparr>))"

definition runEvents :: "(nat \<Rightarrow> bool) \<Rightarrow> ws_event list \<Rightarrow> session \<Rightarrow> session" where
  "runEvents up evs s = fold (step up) evs s"

text \<open>Projections of the effect list: the timer delays, the events, the upstream removals.\<close>

fun timeouts :: "effect list \<Rightarrow> nat list" where
  "timeouts [] = []"
| "timeouts (SetTimeout d # es) = d # timeouts es"
| "timeouts (e # es) = timeouts es"

fun emitted :: "effect list \<Rightarrow> event list" where
  "emitted [] = []"
| "emitted (Emit e # es) = e # emitted es"
| "emitted (e # es) = emitted es"

fun removals :: "effect list \<Rightarrow> nat list" where
  "removals [] = []"
| "removals (RemoveAccountChangeListener i # es) = i # removals es"
| "removals (e # es) = removals es"

fun resubscribed :: "effect list \<Rightarrow> key list" where
  "resubscribed [] = []"
| "resubscribed (OnAccountChange k i # es) = k # resubscribed es"
| "resubscribed (e # es) = resubscribed es"

text \<open>
  A session with a wallet subscription and two position subscriptions, connected, with
  an upstream that accepts every call; then the same session after one failed probe
  and the firing of the 1000 ms timer that the failure set (the next probe is 5000 ms
  after the failed one).
\<close>

definition walletAndTwoPositions :: session where
  "walletAndTwoPositions =
     (let s1 = monitorTick True newSession;
          s2 = snd (subscribeToWallet (\<lambda>n. True) ''Wallet'' 0 s1)
      in snd (subscribeToPositions (\<lambda>n. True) [''PositionA'', ''PositionB''] 1 s2))"

definition afterProbeFailure :: session where
  "afterProbeFailure = runEvents (\<lambda>n. True) [Probe False, TimerFires] walletAndTwoPositions"

text \<open>
  The same session when the connection never recovers: every probe fails and every
  \<open>onAccountChange\<close> call throws. The timers of 1000 and 2000 ms both fire before the
  probe that follows the failed one, which fails as well.
\<close>

definition neverRecovers :: session where
  "neverRecovers =
     runEvents (\<lambda>n. False) [Probe False, TimerFires, TimerFires, Probe False]
       walletAndTwoPositions"

text \<open>The same key subscribed twice on a fresh session.\<close>

definition subscribedTwice :: session where
  "subscribedTwice =
     snd (subscribeToAccount (\<lambda>n. True) ''Wallet'' 1
       (snd (subscribeToAccount (\<lambda>n. True) ''Wallet'' 0 newSession)))"

text \<open>
  Five registered subscriptions on a connected session, and an upstream on which, in
  each of five rounds, the last call of the round throws.
\<close>

definition fiveSubscriptions :: session where
  "fiveSubscriptions =
     snd (subscribeToPositions (\<lambda>n. True) [''A'', ''B'', ''C'', ''D'', ''E''] 0
            (monitorTick True newSession))
       \<lparr>effects := []\<rparr>"

definition flaky :: "nat \<Rightarrow> bool" where
  "flaky n = (n \<noteq> 9 \<and> n \<noteq> 13 \<and> n \<noteq> 16 \<and> n \<noteq> 18 \<and> n \<noteq> 19)"

text \<open>The session just after the monitor saw the probe fail: the first timer is pending.\<close>

definition justDisconnected :: session where
  "justDisconnected = step (\<lambda>n. True) (Probe False) walletAndTwoPositions"

section \<open>Prices: JavaScript numbers and validatePrice (src/utils/walletSecurity.ts)\<close>

text \<open>
  A JavaScript number is a finite value, \<open>NaN\<close> or one of the infinities. Rounding is not
  modelled: the finite values are the rationals.
\<close>

datatype number = Finite rat | NaN | PosInfinity | NegInfinity

text \<open>\<open>Number.isFinite\<close>, the test \<open>x < 0\<close>, and the truth value of a number in a condition.\<close>

fun isFinite :: "number \<Rightarrow> bool" where
  "isFinite (Finite q) = True"
| "isFinite n = False"

fun isNegative :: "number \<Rightarrow> bool" where
  "isNegative (Finite q) = (q < 0)"
| "isNegative NegInfinity = True"
| "isNegative n = False"

fun truthy :: "number \<Rightarrow> bool" where
  "truthy (Finite q) = (q \<noteq> 0)"
| "truthy NaN = False"
| "truthy n = True"

text \<open>The argument of \<open>validatePrice\<close> has type \<open>unknown\<close>: a number or something else.\<close>

datatype jsvalue = Num number | NotNumber

datatype price_error = PriceMustBeNumber | PriceMustBeFinite | PriceCannotBeNegative

fun validatePrice :: "jsvalue \<Rightarrow> price_error + number" where
  "validatePrice NotNumber = Inl PriceMustBeNumber"
| "validatePrice (Num p) =
     (if \<not> isFinite p then Inl PriceMustBeFinite
      else if isNegative p then Inl PriceCannotBeNegative
      else Inr p)"

section \<open>PriceService (src/services/websocketService.ts, second module)\<close>

datatype price_source = Jupiter | Pyth | Fallback

record PriceData =
  mint :: string
  symbol :: string
  price :: number
  priceChange24h :: number
  volume24h :: number
  marketCap :: number
  confidence :: number
  lastUpdated :: int
  source :: price_source

text \<open>
  A \<open>PriceSubscription\<close> object. \<open>indexOf\<close> compares objects by identity, so each object
  carries the number under which it was created.
\<close>

record PriceSubscription =
  ps_object :: nat
  ps_mint :: string
  ps_callback :: nat
  ps_interval :: int

text \<open>An entry of Pyth's \<open>productPrice\<close> map; both fields may be undefined.\<close>

record PythProductPrice =
  pyth_price :: "number option"
  pyth_confidence :: "number option"

text \<open>
  What the outside answers during one call: the clock at the cache check; the result of
  \<open>pythClient.getData()\<close> (an error when it throws) and the clock when the Pyth entry is
  built; the result of the Jupiter request for a list of ids and the clock when its
  entries are built; the clock in the catch branch of \<open>getTokenPrices\<close>. A Jupiter
  response is given after parsing: it maps every id whose entry is present and truthy to
  \<open>parseFloat(entry.price)\<close>; it is an error when \<open>fetch\<close> or \<open>json()\<close> throws or the body
  is \<open>null\<close>.
\<close>

record upstream =
  clock :: int
  pythData :: "error + (string \<rightharpoonup> PythProductPrice)"
  pythClock :: int
  jupiterData :: "string list \<Rightarrow> error + (string \<rightharpoonup> number)"
  jupiterClock :: int
  catchClock :: int

datatype request = PythGetData | JupiterPrices "string list"

text \<open>
  The service: its fields (\<open>pythClient\<close> as the flag "not null", the three maps as
  association lists in insertion order), then the requests sent so far, the interval
  timers that are set and not cleared (id, mint, interval), and the counters from which
  timer ids and object identities are drawn.
\<close>

record PriceService =
  pythClient :: bool
  isInitialized :: bool
  priceCache :: "(string \<times> PriceData) list"
  priceSubscriptions :: "(string \<times> PriceSubscription list) list"
  updateIntervals :: "(string \<times> nat) list"
  cacheExpiry :: int
  requests :: "request list"
  timers :: "(nat \<times> string \<times> int) list"
  nextTimer :: nat
  nextObject :: nat

definition newPriceService :: PriceService where
  "newPriceService = \<lparr>pythClient = True, isInitialized = True, priceCache = [],
     priceSubscriptions = [], updateIntervals = [], cacheExpiry = 30 * 1000,
     requests = [], timers = [], nextTimer = 1, nextObject = 0\<rparr>"

definition TOKEN_PYTH_MAPPING :: "(string \<times> string \<times> string) list" where
  "TOKEN_PYTH_MAPPING =
     [(''So11111111111111111111111111111111111111112'',
         (''SOL'', ''0xef0d8b6fda2ceba41da15d4095d1da392a0d2f8ed0c6c7bc0f4cfac8c280b56d'')),
      (''EPjFWdd5AufqSSqeM2qN1xzybapC8G4wEGGkZwyTDt1v'',
         (''USDC'', ''0xeaa020c61cc479712813461ce153894a96a6c00b21ed0cfc2798d1f9a9e9c94a'')),
      (''Es9vMFrzaCERmJfrF4H2FYD4KCoNkY11McCe8BenwNYB'',
         (''USDT'', ''0x2b89b9dc8fdf9f34709a5b106b472f0f39bb6ca9ce04b0fd7f2e971688e2e53b'')),
      (''9n4nbM75f5Ui33ZbPYXn59EwSgE8CGsHtAeTH5YFeJ9E'',
         (''WBTC'', ''0xe62df6c8b4c85fe1a67db44dc12de5db330f7ac66b72dc658afedf0f4a415b43'')),
      (''2FPyTwcZLUg1MDrwsyoP4D6s1tM7hAkHYRjkNb5w6Pxk'',
         (''WETH'', ''0xff61491a931112ddf1bd8147cd1b641375f79f5825126d665480874634fd0ace''))]"

text \<open>
  The table is an object literal, so the property read \<open>TOKEN_PYTH_MAPPING[mint]\<close> finds
  the five entries and also the members every object inherits from \<open>Object.prototype\<close>.
  The result is \<open>None\<close> for \<open>undefined\<close>, \<open>Some (Some info)\<close> for an entry of the
  table, and \<open>Some None\<close> for an inherited member, which is truthy and has no
  \<open>symbol\<close>.
\<close>

definition objectPrototypeMembers :: "string list" where
  "objectPrototypeMembers =
     [''constructor'', ''__defineGetter__'', ''__defineSetter__'', ''hasOwnProperty'',
      ''__lookupGetter__'', ''__lookupSetter__'', ''isPrototypeOf'', ''propertyIsEnumerable'',
      ''toString'', ''valueOf'', ''__proto__'', ''toLocaleString'']"

definition tokenInfoOf :: "string \<Rightarrow> (string \<times> string) option option" where
  "tokenInfoOf m =
     (case map_of TOKEN_PYTH_MAPPING m of
        Some info \<Rightarrow> Some (Some info)
      | None \<Rightarrow> if m \<in> set objectPrototypeMembers then Some None else None)"

text \<open>\<open>TOKEN_PYTH_MAPPING[mint]?.symbol || 'UNKNOWN'\<close>\<close>

definition symbolOf :: "string \<Rightarrow> string" where
  "symbolOf m = (case tokenInfoOf m of Some (Some info) \<Rightarrow> fst info | _ \<Rightarrow> ''UNKNOWN'')"

text \<open>\<open>cached && Date.now() - cached.lastUpdated.getTime() < this.cacheExpiry\<close>\<close>

definition freshEntry :: "upstream \<Rightarrow> PriceService \<Rightarrow> string \<Rightarrow> PriceData option" where
  "freshEntry env s m =
     (case map_of (priceCache s) m of
        Some cached \<Rightarrow> if clock env - lastUpdated cached < cacheExpiry s then Some cached else None
      | None \<Rightarrow> None)"

text \<open>
  \<open>getPythPrice\<close>. No request is made without a client or when the property read gives
  \<open>undefined\<close>. A throw of \<open>getData\<close> is caught. For an inherited member the symbol is
  \<open>undefined\<close> and \<open>productPrice.get\<close> finds nothing. \<open>!priceData || !priceData.price\<close>
  rejects a missing entry and a price that is undefined, zero or \<open>NaN\<close>.
  \<open>confidence || 0\<close> replaces a falsy confidence by 0.
\<close>

definition getPythPrice :: "upstream \<Rightarrow> string \<Rightarrow> PriceService \<Rightarrow> PriceData option \<times> PriceService" where
  "getPythPrice env m s =
     (if \<not> pythClient s \<or> \<not> isInitialized s then (None, s)
      else case tokenInfoOf m of
        None \<Rightarrow> (None, s)
      | Some tokenInfo \<Rightarrow>
          (let s1 = s\<lparr>requests := requests s @ [PythGetData]\<rparr> in
           case pythData env of
             Inl e \<Rightarrow> (None, s1)
           | Inr productPrice \<Rightarrow>
               (case tokenInfo of
                  None \<Rightarrow> (None, s1)
                | Some info \<Rightarrow>
                    (case productPrice (fst info) of
                       None \<Rightarrow> (None, s1)
                     | Some priceData \<Rightarrow>
                         (case pyth_price priceData of
                            None \<Rightarrow> (None, s1)
                          | Some p \<Rightarrow>
                              if \<not> truthy p then (None, s1)
                              else (Some \<lparr>mint = m, symbol = fst info, price = p,
                                      priceChange24h = Finite 0, volume24h = Finite 0,
                                      marketCap = Finite 0,
                                      confidence =
                                        (case pyth_confidence priceData of
                                           Some c \<Rightarrow> if truthy c then c else Finite 0
                                         | None \<Rightarrow> Finite 0),
                                      lastUpdated = pythClock env, source = Pyth\<rparr>, s1))))))"

text \<open>The entry \<open>getJupiterPrice\<close> and \<open>getJupiterPrices\<close> build from a parsed price.\<close>

definition jupiterEntry :: "upstream \<Rightarrow> string \<Rightarrow> number \<Rightarrow> PriceData" where
  "jupiterEntry env m p =
     \<lparr>mint = m, symbol = symbolOf m, price = p, priceChange24h = Finite 0,
      volume24h = Finite 0, marketCap = Finite 0, confidence = Finite 1,
      lastUpdated = jupiterClock env, source = Jupiter\<rparr>"

definition getJupiterPrice :: "upstream \<Rightarrow> string \<Rightarrow> PriceService \<Rightarrow> PriceData option \<times> PriceService" where
  "getJupiterPrice env m s =
     (let s1 = s\<lparr>requests := requests s @ [JupiterPrices [m]]\<rparr> in
      case jupiterData env [m] of
        Inl e \<Rightarrow> (None, s1)
      | Inr data \<Rightarrow>
          (case data m of
             None \<Rightarrow> (None, s1)
           | Some p \<Rightarrow> (Some (jupiterEntry env m p), s1)))"

definition getPrice :: "upstream \<Rightarrow> string \<Rightarrow> PriceService \<Rightarrow> PriceData option \<times> PriceService" where
  "getPrice env m s =
     (case freshEntry env s m of
        Some cached \<Rightarrow> (Some cached, s)
      | None \<Rightarrow>
          (case getPythPrice env m s of
             (Some pythPrice, s1) \<Rightarrow>
               (Some pythPrice, s1\<lparr>priceCache := AList.update m pythPrice (priceCache s1)\<rparr>)
           | (None, s1) \<Rightarrow>
               (case getJupiterPrice env m s1 of
                  (Some jupiterPrice, s2) \<Rightarrow>
                    (Some jupiterPrice,
                     s2\<lparr>priceCache := AList.update m jupiterPrice (priceCache s2)\<rparr>)
                | (None, s2) \<Rightarrow> (None, s2))))"

text \<open>
  \<open>getJupiterPrices\<close>: one request for the whole list; the loop over the requested mints
  fills the map; a throw leaves it empty.
\<close>

definition getJupiterPrices ::
  "upstream \<Rightarrow> string list \<Rightarrow> PriceService \<Rightarrow> (string \<times> PriceData) list \<times> PriceService" where
  "getJupiterPrices env ms s =
     (let s1 = s\<lparr>requests := requests s @ [JupiterPrices ms]\<rparr> in
      case jupiterData env ms of
        Inl e \<Rightarrow> ([], s1)
      | Inr data \<Rightarrow>
          (fold (\<lambda>m prices. case data m of
                               Some p \<Rightarrow> AList.update m (jupiterEntry env m p) prices
                             | None \<Rightarrow> prices) ms [], s1))"

text \<open>The first loop of \<open>getPrices\<close>: fresh entries go to the result, the other mints to \<open>uncachedMints\<close>.\<close>

definition checkCache ::
  "upstream \<Rightarrow> PriceService \<Rightarrow> string list \<Rightarrow> (string \<times> PriceData) list \<times> string list" where
  "checkCache env s ms =
     fold (\<lambda>m (prices, uncachedMints).
             case freshEntry env s m of
               Some cached \<Rightarrow> (AList.update m cached prices, uncachedMints)
             | None \<Rightarrow> (prices, uncachedMints @ [m])) ms ([], [])"

definition getPrices ::
  "upstream \<Rightarrow> string list \<Rightarrow> PriceService \<Rightarrow> (string \<times> PriceData) list \<times> PriceService" where
  "getPrices env ms s =
     (case checkCache env s ms of
        (prices, uncachedMints) \<Rightarrow>
          if uncachedMints = [] then (prices, s)
          else
            (case getJupiterPrices env uncachedMints s of
               (jupiterPrices, s1) \<Rightarrow>
                 (fold (\<lambda>(m, p) prices. AList.update m p prices) jupiterPrices prices,
                  s1\<lparr>priceCache :=
                       fold (\<lambda>(m, p) cache. AList.update m p cache) jupiterPrices (priceCache s1)\<rparr>)))"

text \<open>\<open>this.subscriptions.get(mint) || []\<close>\<close>

definition subscribers :: "PriceService \<Rightarrow> string \<Rightarrow> PriceSubscription list" where
  "subscribers s m = (case map_of (priceSubscriptions s) m of Some subs \<Rightarrow> subs | None \<Rightarrow> [])"

text \<open>
  \<open>subscribe\<close>. The result is the subscription object, which with its mint is all the
  returned closure captures; \<open>unsubscribePrice\<close> is that closure. In it \<open>indexOf\<close>
  and \<open>splice\<close> remove the first occurrence of the object from the live array (a fresh
  empty array when the mint has no entry), and \<open>if (intervalId)\<close> holds for every
  stored timer handle, so it is the test that the mint has an entry in \<open>updateIntervals\<close>.
\<close>

definition subscribe ::
  "string \<Rightarrow> nat \<Rightarrow> int \<Rightarrow> PriceService \<Rightarrow> PriceSubscription \<times> PriceService" where
  "subscribe m cb interval s =
     (let subscription = \<lparr>ps_object = nextObject s, ps_mint = m, ps_callback = cb,
                           ps_interval = interval\<rparr>;
          s1 = s\<lparr>nextObject := nextObject s + 1\<rparr>;
          s2 = (if map_of (priceSubscriptions s1) m = None
                then s1\<lparr>priceSubscriptions := AList.update m [] (priceSubscriptions s1)\<rparr>
                else s1);
          s3 = s2\<lparr>priceSubscriptions :=
                    AList.update m (subscribers s2 m @ [subscription]) (priceSubscriptions s2)\<rparr>;
          s4 = (if map_of (updateIntervals s3) m = None
                then s3\<lparr>timers := timers s3 @ [(nextTimer s3, m, interval)],
                        updateIntervals := AList.update m (nextTimer s3) (updateIntervals s3),
                        nextTimer := nextTimer s3 + 1\<rparr>
                else s3)
      in (subscription, s4))"

definition clearInterval :: "nat \<Rightarrow> PriceService \<Rightarrow> PriceService" where
  "clearInterval intervalId s = s\<lparr>timers := filter (\<lambda>t. fst t \<noteq> intervalId) (timers s)\<rparr>"

definition unsubscribePrice :: "PriceSubscription \<Rightarrow> PriceService \<Rightarrow> PriceService" where
  "unsubscribePrice subscription s =
     (let m = ps_mint subscription;
          subs = remove1 subscription (subscribers s m);
          s1 = (if map_of (priceSubscriptions s) m = None then s
                else s\<lparr>priceSubscriptions := AList.update m subs (priceSubscriptions s)\<rparr>)
      in if subs = []
         then
           (let s2 = (case map_of (updateIntervals s1) m of
                        Some intervalId \<Rightarrow>
                          (clearInterval intervalId s1)
                            \<lparr>updateIntervals := AList.delete m (updateIntervals s1)\<rparr>
                      | None \<Rightarrow> s1)
            in s2\<lparr>priceSubscriptions := AList.delete m (priceSubscriptions s2)\<rparr>)
         else s1)"

text \<open>
  One firing of the interval callback for a mint: \<open>getPrice\<close>, then every current
  subscriber's callback when a price came back. The result lists the callbacks invoked.
\<close>

definition tick :: "upstream \<Rightarrow> string \<Rightarrow> PriceService \<Rightarrow> nat list \<times> PriceService" where
  "tick env m s =
     (case getPrice env m s of
        (Some p, s1) \<Rightarrow> (map ps_callback (subscribers s1 m), s1)
      | (None, s1) \<Rightarrow> ([], s1))"

definition destroy :: "PriceService \<Rightarrow> PriceService" where
  "destroy s =
     (fold clearInterval (map snd (updateIntervals s)) s)
       \<lparr>updateIntervals := [], priceSubscriptions := [], priceCache := [], pythClient := False\<rparr>"

text \<open>
  What a client can do to the service, and a run of such actions from a state. The
  handles returned by \<open>subscribe\<close> are collected; \<open>Unsubscribe n\<close> invokes the handle
  returned by the \<open>n\<close>-th subscribe call of the run, if there was one.
\<close>

datatype price_action =
    Subscribe string nat int
  | Unsubscribe nat
  | Tick upstream string
  | Destroy

fun perform ::
  "price_action \<Rightarrow> PriceService \<times> PriceSubscription list \<Rightarrow> PriceService \<times> PriceSubscription list" where
  "perform (Subscribe m cb interval) (s, handles) =
     (case subscribe m cb interval s of (h, s') \<Rightarrow> (s', handles @ [h]))"
| "perform (Unsubscribe n) (s, handles) =
     (if n < length handles then (unsubscribePrice (handles ! n) s, handles) else (s, handles))"
| "perform (Tick env m) (s, handles) = (snd (tick env m s), handles)"
| "perform Destroy (s, handles) = (destroy s, handles)"

definition runActions :: "price_action list \<Rightarrow> PriceService \<times> PriceSubscription list" where
  "runActions acts = fold perform acts (newPriceService, [])"

text \<open>The number of live timers of a mint.\<close>

definition activeTimers :: "PriceService \<Rightarrow> string \<Rightarrow> nat" where
  "activeTimers s m = length (filter (\<lambda>t. fst (snd t) = m) (timers s))"

text \<open>
  The invariant that ties the timers to the subscriber lists: a mint has an interval id
  exactly when it has a subscriber list, no stored list is empty, the live timers are
  the ones recorded in \<open>updateIntervals\<close>, and timer ids are not reused.
\<close>

definition timerInv :: "PriceService \<Rightarrow> bool" where
  "timerInv s \<longleftrightarrow>
     (\<forall>m. (map_of (updateIntervals s) m = None) = (map_of (priceSubscriptions s) m = None)) \<and>
     (\<forall>m subs. map_of (priceSubscriptions s) m = Some subs \<longrightarrow> subs \<noteq> []) \<and>
     (\<forall>t \<in> set (timers s).
         map_of (updateIntervals s) (fst (snd t)) = Some (fst t) \<and> fst t < nextTimer s) \<and>
     (\<forall>m i. map_of (updateIntervals s) m = Some i \<longrightarrow>
         (\<exists>t \<in> set (timers s). fst t = i \<and> fst (snd t) = m)) \<and>
     distinct (map fst (timers s))"

section \<open>TokenService.getTokenPrices (src/services/tokenService.ts)\<close>

record TokenPrice =
  tp_mint :: string
  tp_price :: number
  tp_priceChange24h :: number
  tp_volume24h :: number
  tp_marketCap :: number
  tp_lastUpdated :: int

text \<open>The two fields of the class that \<open>getTokenPrices\<close> uses.\<close>

record TokenService =
  tokenPriceCache :: "(string \<times> TokenPrice) list"
  tokenCacheExpiry :: int

definition newTokenService :: TokenService where
  "newTokenService = \<lparr>tokenPriceCache = [], tokenCacheExpiry = 5 * 60 * 1000\<rparr>"

definition tokenFresh :: "upstream \<Rightarrow> TokenService \<Rightarrow> string \<Rightarrow> TokenPrice option" where
  "tokenFresh env s m =
     (case map_of (tokenPriceCache s) m of
        Some cached \<Rightarrow>
          if clock env - tp_lastUpdated cached < tokenCacheExpiry s then Some cached else None
      | None \<Rightarrow> None)"

text \<open>The \<open>filter\<close> callback, which also fills \<open>prices\<close>.\<close>

definition tokenCheckCache ::
  "upstream \<Rightarrow> TokenService \<Rightarrow> string list \<Rightarrow> (string \<times> TokenPrice) list \<times> string list" where
  "tokenCheckCache env s ms =
     fold (\<lambda>m (prices, uncachedMints).
             case tokenFresh env s m of
               Some cached \<Rightarrow> (AList.update m cached prices, uncachedMints)
             | None \<Rightarrow> (prices, uncachedMints @ [m])) ms ([], [])"

definition tokenEntry :: "upstream \<Rightarrow> string \<Rightarrow> number \<Rightarrow> TokenPrice" where
  "tokenEntry env m p =
     \<lparr>tp_mint = m, tp_price = p, tp_priceChange24h = Finite 0, tp_volume24h = Finite 0,
      tp_marketCap = Finite 0, tp_lastUpdated = jupiterClock env\<rparr>"

text \<open>
  The catch branch: the cached entry of every requested mint whose age is below twice
  the expiry.
\<close>

definition staleWithinTolerance ::
  "upstream \<Rightarrow> TokenService \<Rightarrow> string list \<Rightarrow> (string \<times> TokenPrice) list" where
  "staleWithinTolerance env s ms =
     fold (\<lambda>m cachedPrices.
             case map_of (tokenPriceCache s) m of
               Some cached \<Rightarrow>
                 if catchClock env - tp_lastUpdated cached < tokenCacheExpiry s * 2
                 then AList.update m cached cachedPrices else cachedPrices
             | None \<Rightarrow> cachedPrices) ms []"

text \<open>
  \<open>getTokenPrices\<close>. The whole body is inside \<open>try\<close>; \<open>fetchJSON\<close> throwing (or a
  \<open>null\<close> body) leads to the catch branch, which returns without touching the cache.
\<close>

definition getTokenPrices ::
  "upstream \<Rightarrow> string list \<Rightarrow> TokenService \<Rightarrow> (string \<times> TokenPrice) list \<times> TokenService" where
  "getTokenPrices env ms s =
     (case tokenCheckCache env s ms of
        (prices, uncachedMints) \<Rightarrow>
          if uncachedMints = [] then (prices, s)
          else
            (case jupiterData env uncachedMints of
               Inr data \<Rightarrow>
                 (case fold (\<lambda>m (prices, cache).
                               case data m of
                                 Some p \<Rightarrow> (AList.update m (tokenEntry env m p) prices,
                                            AList.update m (tokenEntry env m p) cache)
                               | None \<Rightarrow> (prices, cache))
                         uncachedMints (prices, tokenPriceCache s) of
                    (prices', cache') \<Rightarrow> (prices', s\<lparr>tokenPriceCache := cache'\<rparr>))
             | Inl e \<Rightarrow> (staleWithinTolerance env s ms, s)))"

section \<open>Scenarios for the price services\<close>

definition solMint :: string where
  "solMint = ''So11111111111111111111111111111111111111112''"

text \<open>The primary source times out; the secondary one quotes 150.25 for every id asked.\<close>

definition primaryDown :: upstream where
  "primaryDown = \<lparr>clock = 1000000, pythData = Inl UpstreamError, pythClock = 1000100,
     jupiterData = (\<lambda>ids. Inr (\<lambda>m. if m \<in> set ids then Some (Finite (601 / 4)) else None)),
     jupiterClock = 1000200, catchClock = 1000300\<rparr>"

text \<open>Both sources fail, at the given time.\<close>

definition allDown :: "int \<Rightarrow> upstream" where
  "allDown t = \<lparr>clock = t, pythData = Inl UpstreamError, pythClock = t,
     jupiterData = (\<lambda>ids. Inl UpstreamError), jupiterClock = t, catchClock = t\<rparr>"

text \<open>The secondary source answers with a price field that does not parse.\<close>

definition garbled :: upstream where
  "garbled = \<lparr>clock = 1000000, pythData = Inl UpstreamError, pythClock = 1000000,
     jupiterData = (\<lambda>ids. Inr (\<lambda>m. if m \<in> set ids then Some NaN else None)),
     jupiterClock = 1000000, catchClock = 1000000\<rparr>"

text \<open>A cache whose only entry is 40 seconds old at time 1000000.\<close>

definition staleEntry :: PriceData where
  "staleEntry = \<lparr>mint = ''X'', symbol = ''UNKNOWN'', price = Finite 10,
     priceChange24h = Finite 0, volume24h = Finite 0, marketCap = Finite 0,
     confidence = Finite 1, lastUpdated = 960000, source = Jupiter\<rparr>"

definition staleService :: PriceService where
  "staleService = newPriceService\<lparr>priceCache := [(''X'', staleEntry)]\<rparr>"

definition staleTokenEntry :: TokenPrice where
  "staleTokenEntry = \<lparr>tp_mint = ''X'', tp_price = Finite 10, tp_priceChange24h = Finite 0,
     tp_volume24h = Finite 0, tp_marketCap = Finite 0, tp_lastUpdated = 600000\<rparr>"

definition staleTokenService :: TokenService where
  "staleTokenService = newTokenService\<lparr>tokenPriceCache := [(''X'', staleTokenEntry)]\<rparr>"

text \<open>Two subscribers of one mint, then the first unsubscribed, then both.\<close>

definition twoSubscribers :: "price_action list" where
  "twoSubscribers = [Subscribe ''A'' 1 30000, Subscribe ''A'' 2 30000]"

text \<open>
  For stating what \<open>getPrices\<close> returns: the requested mints without a fresh cache
  entry, and the entry that the one batch request for them yields for a mint.
\<close>

definition uncachedOf :: "upstream \<Rightarrow> PriceService \<Rightarrow> string list \<Rightarrow> string list" where
  "uncachedOf env s ms = filter (\<lambda>m. freshEntry env s m = None) ms"

definition fetchedEntry :: "upstream \<Rightarrow> PriceService \<Rightarrow> string list \<Rightarrow> string \<Rightarrow> PriceData option" where
  "fetchedEntry env s ms m =
     (if m \<in> set (uncachedOf env s ms)
      then (case jupiterData env (uncachedOf env s ms) of
              Inl e \<Rightarrow> None
            | Inr data \<Rightarrow> map_option (jupiterEntry env m) (data m))
      else None)"

text \<open>A cache with a fresh entry for \<open>A\<close> (10 seconds old at time 1000000) and none for \<open>B\<close>.\<close>

definition freshA :: PriceData where
  "freshA = \<lparr>mint = ''A'', symbol = ''UNKNOWN'', price = Finite 3,
     priceChange24h = Finite 0, volume24h = Finite 0, marketCap = Finite 0,
     confidence = Finite 1, lastUpdated = 990000, source = Jupiter\<rparr>"

definition cachedA :: PriceService where
  "cachedA = newPriceService\<lparr>priceCache := [(''A'', freshA)]\<rparr>"

section \<open>RateLimiter: the sliding window\<close>

lemma callSequence_snoc:
  "callSequence r adm (ts @ [t]) =
     (case callSequence r adm ts of (r', adm') \<Rightarrow>
        (case canMakeCall t r' of (ok, r'') \<Rightarrow> (r'', if ok then adm' @ [t] else adm')))"
  by (induction ts arbitrary: r adm) (auto split: prod.splits)

lemma length_filter_mono:
  "(\<And>x. x \<in> set xs \<Longrightarrow> P x \<Longrightarrow> Q x) \<Longrightarrow> length (filter P xs) \<le> length (filter Q xs)"
  by (induction xs) auto

lemma limiterInv_init: "0 \<le> mc \<Longrightarrow> limiterInv mc tw [] (newRateLimiter mc tw) []"
  by (simp add: limiterInv_def newRateLimiter_def inWindow_def)

lemma limiterInv_step:
  assumes inv: "limiterInv mc tw ts r adm"
    and le: "\<forall>x \<in> set ts. x \<le> t"
    and step: "canMakeCall t r = (ok, r')"
  shows "limiterInv mc tw (ts @ [t]) r' (if ok then adm @ [t] else adm)"
proof -
  from inv have mc: "maxCalls r = mc" and tw: "timeWindow r = tw"
    and sub: "set adm \<subseteq> set ts"
    and flt: "\<And>t'. (\<forall>x \<in> set ts. x \<le> t') \<Longrightarrow>
         filter (\<lambda>c. t' - c < tw) (calls r) = filter (\<lambda>c. t' - c < tw) adm"
    and len: "int (length (calls r)) \<le> mc"
    and win: "\<And>T. int (length (inWindow tw T adm)) \<le> mc"
    by (auto simp: limiterInv_def)
  have kept: "prune t r = filter (\<lambda>c. t - c < tw) adm"
    using flt[OF le] by (simp add: prune_def tw)
  have keptlen: "length (prune t r) \<le> length (calls r)"
    by (simp add: prune_def)
  show ?thesis
  proof (cases "int (length (prune t r)) < mc")
    case True
    with step mc have ok: "ok" and r': "r' = r\<lparr>calls := prune t r @ [t]\<rparr>"
      by (auto simp: canMakeCall_def Let_def)
    have f: "filter (\<lambda>c. t' - c < tw) (calls r') = filter (\<lambda>c. t' - c < tw) (adm @ [t])"
      if "\<forall>x \<in> set (ts @ [t]). x \<le> t'" for t'
    proof -
      from that have tt: "t \<le> t'" by simp
      have "filter (\<lambda>c. t' - c < tw) (filter (\<lambda>c. t - c < tw) adm) = filter (\<lambda>c. t' - c < tw) adm"
        using tt by (auto simp: filter_filter intro: filter_cong)
      then show ?thesis by (simp add: r' kept)
    qed
    have w: "int (length (inWindow tw T (adm @ [t]))) \<le> mc" for T
    proof (cases "t \<le> T")
      case False
      then have "inWindow tw T (adm @ [t]) = inWindow tw T adm"
        by (simp add: inWindow_def)
      then show ?thesis using win by simp
    next
      case tT: True
      have "length (filter (\<lambda>x. T - x < tw \<and> x \<le> T) adm) \<le> length (filter (\<lambda>c. t - c < tw) adm)"
        using tT by (intro length_filter_mono) auto
      then have "length (inWindow tw T (adm @ [t])) \<le> length (prune t r) + 1"
        by (simp add: inWindow_def kept)
      with True show ?thesis by linarith
    qed
    from True have l: "int (length (calls r')) \<le> mc" by (simp add: r')
    show ?thesis
      using ok mc tw sub f w l by (auto simp: limiterInv_def r')
  next
    case False
    with step mc have ok: "\<not> ok" and r': "r' = r\<lparr>calls := prune t r\<rparr>"
      by (auto simp: canMakeCall_def Let_def)
    have f: "filter (\<lambda>c. t' - c < tw) (calls r') = filter (\<lambda>c. t' - c < tw) adm"
      if "\<forall>x \<in> set (ts @ [t]). x \<le> t'" for t'
    proof -
      from that have tt: "t \<le> t'" by simp
      have "filter (\<lambda>c. t' - c < tw) (filter (\<lambda>c. t - c < tw) adm) = filter (\<lambda>c. t' - c < tw) adm"
        using tt by (auto simp: filter_filter intro: filter_cong)
      then show ?thesis by (simp add: r' kept)
    qed
    from keptlen len have l: "int (length (calls r')) \<le> mc" by (simp add: r')
    show ?thesis
      using ok mc tw sub f win l by (auto simp: limiterInv_def r')
  qed
qed

lemma limiterInv_callSequence:
  assumes "0 \<le> mc" and "sorted nows"
  shows "case callSequence (newRateLimiter mc tw) [] nows of (r, adm) \<Rightarrow> limiterInv mc tw nows r adm"
  using assms(2)
proof (induction nows rule: rev_induct)
  case Nil
  then show ?case using limiterInv_init[OF assms(1)] by simp
next
  case (snoc t ts)
  then have s: "sorted ts" and le: "\<forall>x \<in> set ts. x \<le> t"
    by (auto simp: sorted_append)
  obtain r adm where c: "callSequence (newRateLimiter mc tw) [] ts = (r, adm)"
    by (cases "callSequence (newRateLimiter mc tw) [] ts")
  with snoc.IH[OF s] have inv: "limiterInv mc tw ts r adm" by simp
  obtain ok r' where st: "canMakeCall t r = (ok, r')" by (cases "canMakeCall t r")
  from limiterInv_step[OF inv le st] show ?case
    by (simp add: callSequence_snoc c st)
qed

lemma canMakeCall_length:
  "int (length (calls r)) \<le> maxCalls r \<Longrightarrow> canMakeCall now r = (ok, r') \<Longrightarrow>
     int (length (calls r')) \<le> maxCalls r' \<and> maxCalls r' = maxCalls r"
proof -
  assume a: "int (length (calls r)) \<le> maxCalls r" and b: "canMakeCall now r = (ok, r')"
  have "length (prune now r) \<le> length (calls r)" by (simp add: prune_def)
  with a b show ?thesis by (auto simp: canMakeCall_def Let_def split: if_splits)
qed

lemma callSequence_length:
  "int (length (calls r)) \<le> maxCalls r \<Longrightarrow>
     int (length (calls (fst (callSequence r adm nows)))) \<le> maxCalls r"
proof (induction nows arbitrary: r adm)
  case Nil
  then show ?case by simp
next
  case (Cons now rest)
  obtain ok r' where st: "canMakeCall now r = (ok, r')" by (cases "canMakeCall now r")
  from canMakeCall_length[OF Cons.prems st]
  have l: "int (length (calls r')) \<le> maxCalls r'" and m: "maxCalls r' = maxCalls r" by auto
  from Cons.IH[OF l] m show ?case by (simp add: st)
qed

text \<open>
  Claim C5. A limiter built with a non-negative budget \<open>mc\<close> and window \<open>tw\<close>
  receives \<open>canMakeCall()\<close> at the times \<open>nows\<close>. When the clock does not run
  backwards, the admitted calls in any trailing window \<open>(T - tw, T]\<close> number at most
  \<open>mc\<close>. At any times at all the retained array holds at most \<open>mc\<close> entries.
  One call at time \<open>now\<close> keeps exactly the recorded timestamps newer than
  \<open>now - timeWindow\<close> (every older one is pruned, and so is one that is exactly
  \<open>timeWindow\<close> old), admits iff fewer than \<open>maxCalls\<close> remain, and appends
  \<open>now\<close> on admission only.
\<close>

theorem rateLimiter_sliding_window:
  assumes "0 \<le> mc"
  shows "(sorted nows \<longrightarrow> (\<forall>T. int (length (inWindow tw T (admittedCalls mc tw nows))) \<le> mc)) \<and>
         int (length (calls (limiterAfter mc tw nows))) \<le> mc \<and>
         prune now r = filter (\<lambda>c. now - timeWindow r < c) (calls r) \<and>
         fst (canMakeCall now r) = (int (length (prune now r)) < maxCalls r) \<and>
         calls (snd (canMakeCall now r)) =
           (if fst (canMakeCall now r) then prune now r @ [now] else prune now r)"
proof -
  have w: "\<forall>T. int (length (inWindow tw T (admittedCalls mc tw nows))) \<le> mc" if "sorted nows"
    using limiterInv_callSequence[OF assms that, of tw]
    by (auto simp: admittedCalls_def limiterInv_def split: prod.splits)
  have l: "int (length (calls (limiterAfter mc tw nows))) \<le> mc"
    using callSequence_length[of "newRateLimiter mc tw" "[]" nows] assms
    by (simp add: limiterAfter_def newRateLimiter_def)
  have p: "prune now r = filter (\<lambda>c. now - timeWindow r < c) (calls r)"
    by (auto simp: prune_def intro: filter_cong)
  show ?thesis using w l p by (simp add: canMakeCall_def Let_def)
qed

theorem rateLimiter_sliding_window_witness:
  "(0::int) \<le> 2 \<and> sorted [100, 101, 102, 109, 110, 111, 112 :: int] \<and>
   admittedCalls 2 10 [100, 101, 102, 109, 110, 111, 112] = [100, 101, 110, 111] \<and>
   inWindow 10 110 (admittedCalls 2 10 [100, 101, 102, 109, 110, 111, 112]) = [101, 110] \<and>
   int (length (inWindow 10 110 (admittedCalls 2 10 [100, 101, 102, 109, 110, 111, 112]))) \<le> 2 \<and>
   calls (limiterAfter 2 10 [100, 101, 102, 109, 110, 111, 112]) = [110, 111]"
  using rateLimiter_sliding_window [of 2 "[100, 101, 102, 109, 110, 111, 112]" 10 0 "newRateLimiter 2 10"]
  by (simp add: admittedCalls_def limiterAfter_def newRateLimiter_def canMakeCall_def prune_def
      inWindow_def)

section \<open>WebSocketService: steps of the reconnection loop\<close>

lemma timeouts_append: "timeouts (xs @ ys) = timeouts xs @ timeouts ys"
  by (induction xs rule: timeouts.induct) auto

lemma emitted_append: "emitted (xs @ ys) = emitted xs @ emitted ys"
  by (induction xs rule: emitted.induct) auto

lemma removals_append: "removals (xs @ ys) = removals xs @ removals ys"
  by (induction xs rule: removals.induct) auto

lemma resubscribed_append: "resubscribed (xs @ ys) = resubscribed xs @ resubscribed ys"
  by (induction xs rule: resubscribed.induct) auto

lemmas trace_append = timeouts_append emitted_append removals_append resubscribed_append

text \<open>What one \<open>subscribeToAccount\<close> call leaves untouched, and what it adds.\<close>

lemma subscribeToAccount_keeps:
  "subscribeToAccount up pk cb s = (r, s') \<Longrightarrow>
     timeouts (effects s') = timeouts (effects s) \<and>
     emitted (effects s') = emitted (effects s) \<and>
     removals (effects s') = removals (effects s) \<and>
     effects s' \<noteq> [] \<and> last (effects s') \<noteq> Emit Reconnected \<and>
     reconnectAttempts s' = reconnectAttempts s \<and>
     maxReconnectAttempts s' = maxReconnectAttempts s \<and>
     reconnectDelay s' = reconnectDelay s \<and> isConnected s' = isConnected s \<and>
     pendingTimers s' = pendingTimers s \<and> accountCalls s' = accountCalls s + 1"
  by (auto simp: subscribeToAccount_def Let_def trace_append split: if_splits)



lemma restore_keeps:
  "restore up subs s = (r, s') \<Longrightarrow>
     timeouts (effects s') = timeouts (effects s) \<and>
     emitted (effects s') = emitted (effects s) \<and>
     removals (effects s') = removals (effects s) \<and>
     reconnectAttempts s' = reconnectAttempts s \<and>
     maxReconnectAttempts s' = maxReconnectAttempts s \<and>
     reconnectDelay s' = reconnectDelay s \<and> isConnected s' = isConnected s \<and>
     pendingTimers s' = pendingTimers s"
proof (induction subs arbitrary: s)
  case Nil
  then show ?case by simp
next
  case (Cons sub rest)
  obtain x s1 where st: "subscribeToAccount up (publicKey sub) (callback sub) s = (x, s1)"
    by (cases "subscribeToAccount up (publicKey sub) (callback sub) s")
  note k = subscribeToAccount_keeps[OF st]
  show ?case
  proof (cases x)
    case (Inl e)
    with Cons.prems st k show ?thesis by simp
  next
    case (Inr h)
    with Cons.prems st have "restore up rest s1 = (r, s')" by simp
    from Cons.IH[OF this] k show ?thesis by simp
  qed
qed



lemma handleReconnection_keeps:
  "removals (effects (handleReconnection s)) = removals (effects s) \<and>
   reconnectAttempts s \<le> reconnectAttempts (handleReconnection s) \<and>
   isConnected (handleReconnection s) = isConnected s \<and>
   emitted (effects (handleReconnection s)) =
     emitted (effects s) @
       (if maxReconnectAttempts s \<le> reconnectAttempts s then [ReconnectionFailed] else [])"
  by (simp add: handleReconnection_def emit_def Let_def trace_append)

lemma timerCallback_removals:
  "removals (effects (timerCallback up s)) = removals (effects s)"
proof -
  obtain x s4 where r: "restore up (map snd (subscriptions s)) (s\<lparr>subscriptions := []\<rparr>) = (x, s4)"
    by (cases "restore up (map snd (subscriptions s)) (s\<lparr>subscriptions := []\<rparr>)")
  from restore_keeps[OF r] have "removals (effects s4) = removals (effects s)" by simp
  then show ?thesis
    using r handleReconnection_keeps[of s4]
    by (cases x) (simp_all add: timerCallback_def Let_def emit_def trace_append)
qed

text \<open>No event of the reconnection machinery removes an upstream listener.\<close>

lemma step_removals: "removals (effects (step up ev s)) = removals (effects s)"
proof (cases ev)
  case (Probe ok)
  then show ?thesis
    using handleReconnection_keeps[of "emit Disconnected (s\<lparr>isConnected := False\<rparr>)"]
    by (simp add: monitorTick_def emit_def trace_append)
next
  case TimerFires
  then show ?thesis by (simp add: timerCallback_removals)
qed

lemma runEvents_removals: "removals (effects (runEvents up evs s)) = removals (effects s)"
  unfolding runEvents_def by (induction evs arbitrary: s) (simp_all add: step_removals)

section \<open>WebSocketService: reconnection and registry\<close>

lemmas ws_eval = runEvents_def monitorTick_def handleReconnection_def timerCallback_def
  newSession_def emit_def subscribeToWallet_def subscribeToAccount_def Let_def unsubscribe_def

lemma walletAndTwoPositions_value:
  "walletAndTwoPositions = \<lparr>subscriptions =
    [(''Wallet'', \<lparr>sub_id = 0, publicKey = ''Wallet'', callback = 0\<rparr>),
     (''PositionA'', \<lparr>sub_id = 1, publicKey = ''PositionA'', callback = 1\<rparr>),
     (''PositionB'', \<lparr>sub_id = 2, publicKey = ''PositionB'', callback = 1\<rparr>)],
    isConnected = True, reconnectAttempts = 0, maxReconnectAttempts = 5,
    reconnectDelay = 1000, nextSubscriptionId = 3,
    accountListeners = [(0, ''Wallet''), (1, ''PositionA''), (2, ''PositionB'')],
    accountCalls = 3, pendingTimers = 0,
    effects = [Emit Connected, OnAccountChange ''Wallet'' 0,
       OnAccountChange ''PositionA'' 1, OnAccountChange ''PositionB'' 2]\<rparr>"
  by (simp add: walletAndTwoPositions_def ws_eval)


lemma afterProbeFailure_value:
  "afterProbeFailure = \<lparr>subscriptions =
    [(''Wallet'', \<lparr>sub_id = 3, publicKey = ''Wallet'', callback = 0\<rparr>),
     (''PositionA'', \<lparr>sub_id = 4, publicKey = ''PositionA'', callback = 1\<rparr>),
     (''PositionB'', \<lparr>sub_id = 5, publicKey = ''PositionB'', callback = 1\<rparr>)],
    isConnected = False, reconnectAttempts = 1, maxReconnectAttempts = 5,
    reconnectDelay = 1000, nextSubscriptionId = 6,
    accountListeners = [(0, ''Wallet''), (1, ''PositionA''), (2, ''PositionB''),
       (3, ''Wallet''), (4, ''PositionA''), (5, ''PositionB'')],
    accountCalls = 6, pendingTimers = 0,
    effects = [Emit Connected, OnAccountChange ''Wallet'' 0,
       OnAccountChange ''PositionA'' 1, OnAccountChange ''PositionB'' 2,
       Emit Disconnected, SetTimeout 1000, OnAccountChange ''Wallet'' 3,
       OnAccountChange ''PositionA'' 4, OnAccountChange ''PositionB'' 5,
       Emit Reconnected]\<rparr>"
  by (simp add: afterProbeFailure_def walletAndTwoPositions_value ws_eval)

lemma afterProbeFailure_eq:
  "afterProbeFailure = step (\<lambda>n. True) TimerFires justDisconnected"
  by (simp add: afterProbeFailure_def justDisconnected_def runEvents_def)

lemma unsubscribe_fold_removals:
  "removals (effects (fold (\<lambda>subscription. unsubscribe subscription) subs s)) =
     removals (effects s) @ map sub_id subs"
  by (induction subs arbitrary: s) (simp_all add: unsubscribe_def removals_append)

lemma unsubscribeAll_removals:
  "removals (effects (unsubscribeAll s)) =
     removals (effects s) @ map (\<lambda>entry. sub_id (snd entry)) (subscriptions s)"
  by (simp add: unsubscribeAll_def unsubscribe_fold_removals comp_def)

text \<open>
  Claim C1 says that in the teardown of a session with a wallet subscription and two
  position subscriptions, after a probe failure, \<open>disconnected\<close> is emitted once, the
  cancellation handle of every registered subscription is invoked once, the same three
  keys are re-subscribed once each after recovery and \<open>reconnected\<close> is emitted once.
  The run of the code on that session: the two events and the three re-subscriptions are
  there, but the timer callback of \<open>handleReconnection\<close> only clears the map, so no
  upstream listener is removed and all six listeners stay registered. \<open>unsubscribeAll\<close>
  on the same session removes the three listeners.
\<close>

theorem reconnection_teardown_scenario:
  "drop 4 (effects afterProbeFailure) =
     [Emit Disconnected, SetTimeout 1000, OnAccountChange ''Wallet'' 3,
      OnAccountChange ''PositionA'' 4, OnAccountChange ''PositionB'' 5, Emit Reconnected] \<and>
   emitted (drop 4 (effects afterProbeFailure)) = [Disconnected, Reconnected] \<and>
   resubscribed (drop 4 (effects afterProbeFailure)) = [''Wallet'', ''PositionA'', ''PositionB''] \<and>
   removals (effects afterProbeFailure) = [] \<and>
   accountListeners afterProbeFailure =
     [(0, ''Wallet''), (1, ''PositionA''), (2, ''PositionB''),
      (3, ''Wallet''), (4, ''PositionA''), (5, ''PositionB'')] \<and>
   removals (effects (unsubscribeAll walletAndTwoPositions)) = [0, 1, 2]"
  by (simp add: afterProbeFailure_value unsubscribeAll_removals walletAndTwoPositions_value)

text \<open>
  Claim C2 says that with a maximum of 5 attempts and a base delay of 1000 ms a
  disconnect episode in which every re-establishment attempt fails goes through five
  rounds with the waits 1000, 2000, 4000, 8000, 16000 and then emits
  \<open>reconnection-failed\<close> once. The run of the code on a connection that never recovers
  (every probe fails, every \<open>onAccountChange\<close> call throws), from a connected session
  with a non-empty registry and a maximum of at least 2: the first round throws at the
  first snapshotted key; the snapshot is not put back, so the second round has nothing
  to restore and emits \<open>reconnected\<close>. Two timers are set, with the base delay and
  twice the base delay, the registry ends empty, no timer is pending, and a further
  failed probe or timer event changes nothing. Whatever the order in which failed
  probes and timer firings arrive, the session is at a stage of that run, so
  \<open>reconnection-failed\<close> is never emitted.
\<close>

theorem dead_upstream_reconnects_in_two_rounds:
  assumes "isConnected s" and "reconnectAttempts s = 0" and "2 \<le> maxReconnectAttempts s"
    and "pendingTimers s = 0" and "subscriptions s = (k, sub) # others"
  shows
    "effects (runEvents (\<lambda>n. False) [Probe False, TimerFires, TimerFires] s) =
       effects s @ [Emit Disconnected, SetTimeout (reconnectDelay s),
                    OnAccountChangeThrew (publicKey sub),
                    SetTimeout (reconnectDelay s * 2), Emit Reconnected] \<and>
     subscriptions (runEvents (\<lambda>n. False) [Probe False, TimerFires, TimerFires] s) = [] \<and>
     accountListeners (runEvents (\<lambda>n. False) [Probe False, TimerFires, TimerFires] s) =
       accountListeners s \<and>
     reconnectAttempts (runEvents (\<lambda>n. False) [Probe False, TimerFires, TimerFires] s) = 2 \<and>
     pendingTimers (runEvents (\<lambda>n. False) [Probe False, TimerFires, TimerFires] s) = 0 \<and>
     step (\<lambda>n. False) (Probe False)
         (runEvents (\<lambda>n. False) [Probe False, TimerFires, TimerFires] s) =
       runEvents (\<lambda>n. False) [Probe False, TimerFires, TimerFires] s \<and>
     step (\<lambda>n. False) TimerFires
         (runEvents (\<lambda>n. False) [Probe False, TimerFires, TimerFires] s) =
       runEvents (\<lambda>n. False) [Probe False, TimerFires, TimerFires] s \<and>
     (Probe True \<notin> set evs \<longrightarrow>
        (\<exists>n \<le> 3. runEvents (\<lambda>n. False) evs s =
           runEvents (\<lambda>n. False) (take n [Probe False, TimerFires, TimerFires]) s))"
proof -
  define s1 where "s1 = step (\<lambda>n. False) (Probe False) s"
  have s1: "s1 = s\<lparr>isConnected := False, reconnectAttempts := 1,
      effects := effects s @ [Emit Disconnected, SetTimeout (reconnectDelay s)],
      pendingTimers := 1\<rparr>"
    using assms by (simp add: s1_def monitorTick_def handleReconnection_def emit_def Let_def)
  define s2 where "s2 = step (\<lambda>n. False) TimerFires s1"
  have s2: "s2 = s\<lparr>isConnected := False, reconnectAttempts := 2, subscriptions := [],
      accountCalls := accountCalls s + 1,
      effects := effects s @ [Emit Disconnected, SetTimeout (reconnectDelay s),
        OnAccountChangeThrew (publicKey sub), SetTimeout (reconnectDelay s * 2)],
      pendingTimers := 1\<rparr>"
    using assms
    by (simp add: s2_def s1 timerCallback_def subscribeToAccount_def handleReconnection_def
        Let_def)
  define s3 where "s3 = step (\<lambda>n. False) TimerFires s2"
  have s3: "s3 = s\<lparr>isConnected := False, reconnectAttempts := 2, subscriptions := [],
      accountCalls := accountCalls s + 1,
      effects := effects s @ [Emit Disconnected, SetTimeout (reconnectDelay s),
        OnAccountChangeThrew (publicKey sub), SetTimeout (reconnectDelay s * 2),
        Emit Reconnected],
      pendingTimers := 0\<rparr>"
    by (simp add: s3_def s2 timerCallback_def emit_def Let_def)
  have run: "runEvents (\<lambda>n. False) [Probe False, TimerFires, TimerFires] s = s3"
    by (simp add: runEvents_def s3_def s2_def s1_def)
  have st0: "step (\<lambda>n. False) (Probe False) s = s1" by (simp only: s1_def)
  have st1: "step (\<lambda>n. False) TimerFires s1 = s2" by (simp only: s2_def)
  have st2: "step (\<lambda>n. False) TimerFires s2 = s3" by (simp only: s3_def)
  have fp1: "step (\<lambda>n. False) (Probe False) s1 = s1" by (simp add: s1 monitorTick_def)
  have fp2: "step (\<lambda>n. False) (Probe False) s2 = s2" by (simp add: s2 monitorTick_def)
  have fp3: "step (\<lambda>n. False) (Probe False) s3 = s3" by (simp add: s3 monitorTick_def)
  have ft0: "step (\<lambda>n. False) TimerFires s = s" using assms(4) by simp
  have ft3: "step (\<lambda>n. False) TimerFires s3 = s3" by (simp add: s3)
  have closed: "step (\<lambda>n. False) ev x \<in> {s, s1, s2, s3}"
    if "x \<in> {s, s1, s2, s3}" and "ev \<noteq> Probe True" for ev x
  proof (cases ev)
    case (Probe ok)
    with that(2) have ev: "ev = Probe False" by simp
    from that(1) consider "x = s" | "x = s1" | "x = s2" | "x = s3" by blast
    then show ?thesis
    proof cases
      case 1 show ?thesis unfolding ev 1 st0 by blast
    next
      case 2 show ?thesis unfolding ev 2 fp1 by blast
    next
      case 3 show ?thesis unfolding ev 3 fp2 by blast
    next
      case 4 show ?thesis unfolding ev 4 fp3 by blast
    qed
  next
    case TimerFires
    from that(1) consider "x = s" | "x = s1" | "x = s2" | "x = s3" by blast
    then show ?thesis
    proof cases
      case 1 show ?thesis unfolding TimerFires 1 ft0 by blast
    next
      case 2 show ?thesis unfolding TimerFires 2 st1 by blast
    next
      case 3 show ?thesis unfolding TimerFires 3 st2 by blast
    next
      case 4 show ?thesis unfolding TimerFires 4 ft3 by blast
    qed
  qed
  have reach: "runEvents (\<lambda>n. False) evs s \<in> {s, s1, s2, s3}" if "Probe True \<notin> set evs"
    using that
  proof (induction evs rule: rev_induct)
    case Nil
    then show ?case by (simp add: runEvents_def)
  next
    case (snoc ev evs)
    then have "runEvents (\<lambda>n. False) evs s \<in> {s, s1, s2, s3}" and "ev \<noteq> Probe True"
      by auto
    from closed[OF this] show ?case by (simp only: runEvents_def fold_append fold_simps comp_apply)
  qed
  have pre: "\<exists>n \<le> 3. runEvents (\<lambda>n. False) evs s =
           runEvents (\<lambda>n. False) (take n [Probe False, TimerFires, TimerFires]) s"
    if "Probe True \<notin> set evs"
  proof -
    have p0: "s = runEvents (\<lambda>n. False) (take 0 [Probe False, TimerFires, TimerFires]) s"
      by (simp add: runEvents_def)
    have p1: "s1 = runEvents (\<lambda>n. False) (take 1 [Probe False, TimerFires, TimerFires]) s"
      by (simp add: runEvents_def s1_def)
    have p2: "s2 = runEvents (\<lambda>n. False) (take 2 [Probe False, TimerFires, TimerFires]) s"
      by (simp add: runEvents_def s1_def s2_def numeral_2_eq_2)
    have p3: "s3 = runEvents (\<lambda>n. False) (take 3 [Probe False, TimerFires, TimerFires]) s"
      using run by simp
    from reach[OF that] consider "runEvents (\<lambda>n. False) evs s = s"
      | "runEvents (\<lambda>n. False) evs s = s1" | "runEvents (\<lambda>n. False) evs s = s2"
      | "runEvents (\<lambda>n. False) evs s = s3" by auto
    then show ?thesis
    proof cases
      case 1 with p0 show ?thesis by (intro exI[of _ 0]) simp
    next
      case 2 with p1 show ?thesis by (intro exI[of _ 1]) simp
    next
      case 3 with p2 show ?thesis by (intro exI[of _ 2]) simp
    next
      case 4 with p3 show ?thesis by (intro exI[of _ 3]) simp
    qed
  qed
  have main: "effects s3 =
       effects s @ [Emit Disconnected, SetTimeout (reconnectDelay s),
                    OnAccountChangeThrew (publicKey sub),
                    SetTimeout (reconnectDelay s * 2), Emit Reconnected] \<and>
     subscriptions s3 = [] \<and> accountListeners s3 = accountListeners s \<and>
     reconnectAttempts s3 = 2 \<and> pendingTimers s3 = 0 \<and>
     step (\<lambda>n. False) (Probe False) s3 = s3 \<and> step (\<lambda>n. False) TimerFires s3 = s3"
    using fp3 ft3 by (simp add: s3)
  show ?thesis
    unfolding run using main pre by blast
qed

theorem dead_upstream_reconnects_in_two_rounds_witness:
  "isConnected walletAndTwoPositions \<and> reconnectAttempts walletAndTwoPositions = 0 \<and>
   2 \<le> maxReconnectAttempts walletAndTwoPositions \<and> pendingTimers walletAndTwoPositions = 0 \<and>
   maxReconnectAttempts walletAndTwoPositions = 5 \<and> reconnectDelay walletAndTwoPositions = 1000 \<and>
   drop 4 (effects neverRecovers) =
     [Emit Disconnected, SetTimeout 1000, OnAccountChangeThrew ''Wallet'', SetTimeout 2000,
      Emit Reconnected] \<and>
   subscriptions neverRecovers = [] \<and>
   ReconnectionFailed \<notin> set (emitted (effects neverRecovers)) \<and>
   Probe True \<notin> set [Probe False, TimerFires, Probe False, TimerFires, TimerFires, Probe False] \<and>
   runEvents (\<lambda>n. False)
       [Probe False, TimerFires, Probe False, TimerFires, TimerFires, Probe False]
       walletAndTwoPositions = neverRecovers"
proof -
  have n: "neverRecovers =
      step (\<lambda>n. False) (Probe False)
        (runEvents (\<lambda>n. False) [Probe False, TimerFires, TimerFires] walletAndTwoPositions)"
    by (simp add: neverRecovers_def runEvents_def)
  from dead_upstream_reconnects_in_two_rounds
    [where s = walletAndTwoPositions and k = "''Wallet''"
       and sub = "\<lparr>sub_id = 0, publicKey = ''Wallet'', callback = 0\<rparr>"
       and others = "[(''PositionA'', \<lparr>sub_id = 1, publicKey = ''PositionA'', callback = 1\<rparr>),
                      (''PositionB'', \<lparr>sub_id = 2, publicKey = ''PositionB'', callback = 1\<rparr>)]"
       and evs = "[Probe False, TimerFires, Probe False, TimerFires, TimerFires, Probe False]"]
  have a: "drop 4 (effects neverRecovers) =
     [Emit Disconnected, SetTimeout 1000, OnAccountChangeThrew ''Wallet'', SetTimeout 2000,
      Emit Reconnected] \<and>
   subscriptions neverRecovers = [] \<and>
   ReconnectionFailed \<notin> set (emitted (effects neverRecovers))"
    by (simp add: n walletAndTwoPositions_value)
  have b: "runEvents (\<lambda>n. False)
       [Probe False, TimerFires, Probe False, TimerFires, TimerFires, Probe False]
       walletAndTwoPositions = neverRecovers"
    by (simp add: neverRecovers_def walletAndTwoPositions_value ws_eval)
  show ?thesis using a b by (simp add: walletAndTwoPositions_value)
qed

text \<open>With an empty registry the first round already has nothing to restore.\<close>

lemma dead_upstream_empty_registry:
  assumes "isConnected s" and "reconnectAttempts s = 0" and "1 \<le> maxReconnectAttempts s"
    and "pendingTimers s = 0" and "subscriptions s = []"
  shows "effects (runEvents up [Probe False, TimerFires] s) =
       effects s @ [Emit Disconnected, SetTimeout (reconnectDelay s), Emit Reconnected]"
  using assms
  by (simp add: runEvents_def monitorTick_def handleReconnection_def timerCallback_def emit_def
      Let_def)

lemma failed_probe_while_disconnected:
  "\<not> isConnected s \<Longrightarrow> step up (Probe False) s = s"
  by (simp add: monitorTick_def)

lemma fiveSubscriptions_value:
  "fiveSubscriptions = \<lparr>subscriptions =
    [(''A'', \<lparr>sub_id = 0, publicKey = ''A'', callback = 0\<rparr>),
     (''B'', \<lparr>sub_id = 1, publicKey = ''B'', callback = 0\<rparr>),
     (''C'', \<lparr>sub_id = 2, publicKey = ''C'', callback = 0\<rparr>),
     (''D'', \<lparr>sub_id = 3, publicKey = ''D'', callback = 0\<rparr>),
     (''E'', \<lparr>sub_id = 4, publicKey = ''E'', callback = 0\<rparr>)],
    isConnected = True, reconnectAttempts = 0, maxReconnectAttempts = 5,
    reconnectDelay = 1000, nextSubscriptionId = 5,
    accountListeners = [(0, ''A''), (1, ''B''), (2, ''C''), (3, ''D''), (4, ''E'')],
    accountCalls = 5, pendingTimers = 0, effects = []\<rparr>"
  by (simp add: fiveSubscriptions_def ws_eval)

text \<open>
  The counter is shared with the monitor. Here rounds keep failing (the last call of
  each round throws) and one probe succeeds while the third timer is pending: the
  backoff starts again at the base delay, six timers are set in all, and the run ends
  with \<open>reconnected\<close> on an empty registry, the counter at 3 and \<open>isConnected\<close> true.
\<close>

lemma probe_between_rounds:
  "effects (runEvents flaky
      [Probe False, TimerFires, TimerFires, Probe True, TimerFires, TimerFires, TimerFires,
       TimerFires] fiveSubscriptions) =
     [Emit Disconnected, SetTimeout 1000, OnAccountChange ''A'' 5, OnAccountChange ''B'' 6,
      OnAccountChange ''C'' 7, OnAccountChange ''D'' 8, OnAccountChangeThrew ''E'',
      SetTimeout 2000, OnAccountChange ''A'' 9, OnAccountChange ''B'' 10,
      OnAccountChange ''C'' 11, OnAccountChangeThrew ''D'', SetTimeout 4000, Emit Connected,
      OnAccountChange ''A'' 12, OnAccountChange ''B'' 13, OnAccountChangeThrew ''C'',
      SetTimeout 1000, OnAccountChange ''A'' 14, OnAccountChangeThrew ''B'', SetTimeout 2000,
      OnAccountChangeThrew ''A'', SetTimeout 4000, Emit Reconnected] \<and>
   reconnectAttempts (runEvents flaky
      [Probe False, TimerFires, TimerFires, Probe True, TimerFires, TimerFires, TimerFires,
       TimerFires] fiveSubscriptions) = 3 \<and>
   isConnected (runEvents flaky
      [Probe False, TimerFires, TimerFires, Probe True, TimerFires, TimerFires, TimerFires,
       TimerFires] fiveSubscriptions)"
  by (simp add: fiveSubscriptions_value flaky_def ws_eval)

text \<open>Without that probe the same rounds exhaust the five attempts.\<close>

lemma five_failed_rounds:
  "timeouts (effects (runEvents flaky
      [Probe False, TimerFires, TimerFires, TimerFires, TimerFires, TimerFires]
      fiveSubscriptions)) = [1000, 2000, 4000, 8000, 16000] \<and>
   emitted (effects (runEvents flaky
      [Probe False, TimerFires, TimerFires, TimerFires, TimerFires, TimerFires]
      fiveSubscriptions)) = [Disconnected, ReconnectionFailed]"
  by (simp add: fiveSubscriptions_value flaky_def ws_eval)




text \<open>
  Claim C4 says that a key has at most one live upstream subscription, the prior handle
  being invoked when \<open>subscribeToAccount\<close> is called for a registered key. The run of
  the code with the same key subscribed twice: the map holds the second subscription
  only, no listener was removed and both upstream listeners are live. The handle of the
  first subscription, invoked afterwards, removes the entry of the second one from the
  map and leaves its listener registered.
\<close>

theorem resubscribe_same_key_scenario:
  "accountListeners subscribedTwice = [(0, ''Wallet''), (1, ''Wallet'')] \<and>
   removals (effects subscribedTwice) = [] \<and>
   subscriptions subscribedTwice =
     [(''Wallet'', \<lparr>sub_id = 1, publicKey = ''Wallet'', callback = 1\<rparr>)] \<and>
   subscriptions
     (unsubscribe \<lparr>sub_id = 0, publicKey = ''Wallet'', callback = 0\<rparr> subscribedTwice) = [] \<and>
   accountListeners
     (unsubscribe \<lparr>sub_id = 0, publicKey = ''Wallet'', callback = 0\<rparr> subscribedTwice) =
     [(1, ''Wallet'')]"
  by (simp add: subscribedTwice_def ws_eval)

section \<open>PriceService: one polling timer per subscribed mint\<close>

lemmas alist_map_of = AList.update_conv' AList.delete_conv'

lemma timerInv_new: "timerInv newPriceService"
  by (simp add: timerInv_def newPriceService_def)

lemma timerInvD:
  assumes "timerInv s"
  shows "(map_of (updateIntervals s) m = None) = (map_of (priceSubscriptions s) m = None)"
    and "map_of (priceSubscriptions s) m = Some subs \<Longrightarrow> subs \<noteq> []"
    and "t \<in> set (timers s) \<Longrightarrow> map_of (updateIntervals s) (fst (snd t)) = Some (fst t)"
    and "t \<in> set (timers s) \<Longrightarrow> fst t < nextTimer s"
    and "map_of (updateIntervals s) m = Some i \<Longrightarrow> \<exists>t \<in> set (timers s). fst t = i \<and> fst (snd t) = m"
    and "distinct (map fst (timers s))"
  using assms unfolding timerInv_def by blast+

lemma timerInvI:
  assumes "\<And>m. (map_of (updateIntervals s) m = None) = (map_of (priceSubscriptions s) m = None)"
    and "\<And>m subs. map_of (priceSubscriptions s) m = Some subs \<Longrightarrow> subs \<noteq> []"
    and "\<And>t. t \<in> set (timers s) \<Longrightarrow> map_of (updateIntervals s) (fst (snd t)) = Some (fst t)"
    and "\<And>t. t \<in> set (timers s) \<Longrightarrow> fst t < nextTimer s"
    and "\<And>m i. map_of (updateIntervals s) m = Some i \<Longrightarrow> \<exists>t \<in> set (timers s). fst t = i \<and> fst (snd t) = m"
    and "distinct (map fst (timers s))"
  shows "timerInv s"
  using assms unfolding timerInv_def by blast

lemma subscribe_new_mint:
  assumes "map_of (priceSubscriptions s) m = None" and "map_of (updateIntervals s) m = None"
  shows "snd (subscribe m cb i s) =
     s\<lparr>nextObject := nextObject s + 1,
       priceSubscriptions := AList.update m
          [\<lparr>ps_object = nextObject s, ps_mint = m, ps_callback = cb, ps_interval = i\<rparr>]
          (AList.update m [] (priceSubscriptions s)),
       timers := timers s @ [(nextTimer s, m, i)],
       updateIntervals := AList.update m (nextTimer s) (updateIntervals s),
       nextTimer := nextTimer s + 1\<rparr>"
  using assms by (simp add: subscribe_def Let_def subscribers_def alist_map_of)

lemma subscribe_known_mint:
  assumes "map_of (priceSubscriptions s) m = Some subs" and "map_of (updateIntervals s) m = Some j"
  shows "snd (subscribe m cb i s) =
     s\<lparr>nextObject := nextObject s + 1,
       priceSubscriptions := AList.update m
          (subs @ [\<lparr>ps_object = nextObject s, ps_mint = m, ps_callback = cb, ps_interval = i\<rparr>])
          (priceSubscriptions s)\<rparr>"
  using assms by (simp add: subscribe_def Let_def subscribers_def alist_map_of)

lemma timerInv_subscribe:
  assumes inv: "timerInv s"
  shows "timerInv (snd (subscribe m cb i s))"
proof (cases "map_of (priceSubscriptions s) m")
  case None
  with timerInvD(1)[OF inv, of m] have u: "map_of (updateIntervals s) m = None" by simp
  have nom: "fst (snd t) \<noteq> m" if "t \<in> set (timers s)" for t
    using timerInvD(3)[OF inv that] u by auto
  have fresh: "fst t \<noteq> nextTimer s" if "t \<in> set (timers s)" for t
    using timerInvD(4)[OF inv that] by simp
  show ?thesis
    unfolding subscribe_new_mint[OF None u]
  proof (rule timerInvI, goal_cases)
    case (1 m') then show ?case using timerInvD(1)[OF inv, of m'] by (simp add: alist_map_of)
  next
    case (2 m' subs) then show ?case using timerInvD(2)[OF inv, of m' subs]
      by (auto simp: alist_map_of split: if_splits)
  next
    case (3 t) then show ?case using timerInvD(3)[OF inv, of t] nom[of t]
      by (auto simp: alist_map_of)
  next
    case (4 t) then show ?case using timerInvD(4)[OF inv, of t] by auto
  next
    case (5 m' j) then show ?case using timerInvD(5)[OF inv, of m' j]
      by (auto simp: alist_map_of split: if_splits)
  next
    case 6
    have "nextTimer s \<notin> fst ` set (timers s)"
    proof
      assume "nextTimer s \<in> fst ` set (timers s)"
      then obtain t where "t \<in> set (timers s)" and "fst t = nextTimer s" by auto
      with fresh[of t] show False by simp
    qed
    then show ?case using timerInvD(6)[OF inv] by simp
  qed
next
  case (Some subs)
  with timerInvD(1)[OF inv, of m] obtain j where u: "map_of (updateIntervals s) m = Some j" by auto
  show ?thesis
    unfolding subscribe_known_mint[OF Some u]
  proof (rule timerInvI, goal_cases)
    case (1 m') then show ?case using timerInvD(1)[OF inv, of m'] Some u by (simp add: alist_map_of)
  next
    case (2 m' subs') then show ?case using timerInvD(2)[OF inv, of m' subs']
      by (auto simp: alist_map_of split: if_splits)
  next
    case (3 t) then show ?case using timerInvD(3)[OF inv, of t] by simp
  next
    case (4 t) then show ?case using timerInvD(4)[OF inv, of t] by simp
  next
    case (5 m' j') then show ?case using timerInvD(5)[OF inv, of m' j'] by simp
  next
    case 6 then show ?case using timerInvD(6)[OF inv] by simp
  qed
qed

lemma getPythPrice_state:
  "snd (getPythPrice env m s) = s\<lparr>requests := requests (snd (getPythPrice env m s))\<rparr>"
  by (simp add: getPythPrice_def Let_def split: option.splits sum.splits)

lemma getJupiterPrice_state:
  "snd (getJupiterPrice env m s) = s\<lparr>requests := requests (snd (getJupiterPrice env m s))\<rparr>"
  by (simp add: getJupiterPrice_def Let_def split: option.splits sum.splits)

lemma getPrice_keeps:
  "priceSubscriptions (snd (getPrice env m s)) = priceSubscriptions s \<and>
   updateIntervals (snd (getPrice env m s)) = updateIntervals s \<and>
   timers (snd (getPrice env m s)) = timers s \<and>
   nextTimer (snd (getPrice env m s)) = nextTimer s"
proof -
  obtain r1 s1 where p: "getPythPrice env m s = (r1, s1)" by (cases "getPythPrice env m s")
  obtain r2 s2 where j: "getJupiterPrice env m s1 = (r2, s2)" by (cases "getJupiterPrice env m s1")
  from getPythPrice_state[of env m s] p have s1: "s1 = s\<lparr>requests := requests s1\<rparr>" by simp
  from getJupiterPrice_state[of env m s1] j have s2: "s2 = s1\<lparr>requests := requests s2\<rparr>" by simp
  have k1: "priceSubscriptions s1 = priceSubscriptions s \<and> updateIntervals s1 = updateIntervals s \<and>
      timers s1 = timers s \<and> nextTimer s1 = nextTimer s"
    by (subst s1, simp)+
  have k2: "priceSubscriptions s2 = priceSubscriptions s1 \<and> updateIntervals s2 = updateIntervals s1 \<and>
      timers s2 = timers s1 \<and> nextTimer s2 = nextTimer s1"
    by (subst s2, simp)+
  show ?thesis
    using k1 k2 by (simp add: getPrice_def p j split: option.splits)
qed

lemma tick_state: "snd (tick env m s) = snd (getPrice env m s)"
  by (simp add: tick_def split: prod.splits option.splits)

lemma timerInv_tick: "timerInv s \<Longrightarrow> timerInv (snd (tick env m s))"
  by (simp add: timerInv_def tick_state getPrice_keeps)

lemma fold_clearInterval_timers:
  "timers (fold clearInterval ids s) = filter (\<lambda>t. fst t \<notin> set ids) (timers s)"
  by (induction ids arbitrary: s) (auto simp: clearInterval_def intro: filter_cong)

lemma timerInv_destroy:
  assumes inv: "timerInv s"
  shows "timerInv (destroy s)"
proof -
  have "fst t \<in> set (map snd (updateIntervals s))" if "t \<in> set (timers s)" for t
  proof -
    from timerInvD(3)[OF inv that]
    have "(fst (snd t), fst t) \<in> set (updateIntervals s)" by (rule map_of_SomeD)
    then show ?thesis by force
  qed
  then have "timers (destroy s) = []"
    by (auto simp: destroy_def fold_clearInterval_timers filter_empty_conv)
  then show ?thesis by (simp add: timerInv_def destroy_def)
qed

lemma unsubscribePrice_absent:
  assumes "map_of (priceSubscriptions s) (ps_mint h) = None"
    and "map_of (updateIntervals s) (ps_mint h) = None"
  shows "unsubscribePrice h s =
           s\<lparr>priceSubscriptions := AList.delete (ps_mint h) (priceSubscriptions s)\<rparr>"
  using assms by (simp add: unsubscribePrice_def Let_def subscribers_def)

lemma unsubscribePrice_others_left:
  assumes "map_of (priceSubscriptions s) (ps_mint h) = Some subs" and "remove1 h subs \<noteq> []"
  shows "unsubscribePrice h s =
           s\<lparr>priceSubscriptions := AList.update (ps_mint h) (remove1 h subs) (priceSubscriptions s)\<rparr>"
  using assms by (simp add: unsubscribePrice_def Let_def subscribers_def)

lemma unsubscribePrice_last:
  assumes "map_of (priceSubscriptions s) (ps_mint h) = Some subs" and "remove1 h subs = []"
    and "map_of (updateIntervals s) (ps_mint h) = Some j"
  shows "unsubscribePrice h s =
           s\<lparr>timers := filter (\<lambda>t. fst t \<noteq> j) (timers s),
             updateIntervals := AList.delete (ps_mint h) (updateIntervals s),
             priceSubscriptions :=
               AList.delete (ps_mint h) (AList.update (ps_mint h) [] (priceSubscriptions s))\<rparr>"
  using assms by (simp add: unsubscribePrice_def Let_def subscribers_def clearInterval_def)

lemma same_id_same_timer:
  assumes "distinct (map fst xs)" and "t \<in> set xs" and "u \<in> set xs" and "fst t = fst u"
  shows "t = u"
  using assms by (metis distinct_map inj_onD)

lemma timerInv_unsubscribe:
  assumes inv: "timerInv s"
  shows "timerInv (unsubscribePrice h s)"
proof (cases "map_of (priceSubscriptions s) (ps_mint h)")
  case None
  with timerInvD(1)[OF inv, of "ps_mint h"] have u: "map_of (updateIntervals s) (ps_mint h) = None"
    by simp
  have same: "map_of (AList.delete (ps_mint h) (priceSubscriptions s)) = map_of (priceSubscriptions s)"
    using None by (auto simp: alist_map_of)
  show ?thesis
    using inv unfolding unsubscribePrice_absent[OF None u] timerInv_def by (simp add: same)
next
  case (Some subs)
  with timerInvD(1)[OF inv, of "ps_mint h"]
  obtain j where u: "map_of (updateIntervals s) (ps_mint h) = Some j" by auto
  show ?thesis
  proof (cases "remove1 h subs = []")
    case False
    show ?thesis
      unfolding unsubscribePrice_others_left[OF Some False]
    proof (rule timerInvI, goal_cases)
      case (1 m') then show ?case using timerInvD(1)[OF inv, of m'] u Some
        by (auto simp: alist_map_of)
    next
      case (2 m' subs') then show ?case using timerInvD(2)[OF inv, of m' subs'] False
        by (auto simp: alist_map_of split: if_splits)
    next
      case (3 t) then show ?case using timerInvD(3)[OF inv, of t] by simp
    next
      case (4 t) then show ?case using timerInvD(4)[OF inv, of t] by simp
    next
      case (5 m' j') then show ?case using timerInvD(5)[OF inv, of m' j'] by simp
    next
      case 6 then show ?case using timerInvD(6)[OF inv] by simp
    qed
  next
    case True
    from timerInvD(5)[OF inv u] obtain t0 where t0: "t0 \<in> set (timers s)" "fst t0 = j"
      "fst (snd t0) = ps_mint h" by auto
    show ?thesis
      unfolding unsubscribePrice_last[OF Some True u]
    proof (rule timerInvI, goal_cases)
      case (1 m') then show ?case using timerInvD(1)[OF inv, of m'] by (simp add: alist_map_of)
    next
      case (2 m' subs') then show ?case using timerInvD(2)[OF inv, of m' subs']
        by (auto simp: alist_map_of split: if_splits)
    next
      case (3 t)
      then have tin: "t \<in> set (timers s)" and tj: "fst t \<noteq> j" by simp_all
      from timerInvD(3)[OF inv tin] u tj have "fst (snd t) \<noteq> ps_mint h" by auto
      with timerInvD(3)[OF inv tin] show ?case by (simp add: alist_map_of)
    next
      case (4 t) then show ?case using timerInvD(4)[OF inv, of t] by simp
    next
      case (5 m' j')
      then have ne: "m' \<noteq> ps_mint h" and mp: "map_of (updateIntervals s) m' = Some j'"
        by (auto simp: alist_map_of split: if_splits)
      from timerInvD(5)[OF inv mp] obtain t where t: "t \<in> set (timers s)" "fst t = j'"
        "fst (snd t) = m'" by auto
      have "fst t \<noteq> j"
      proof
        assume "fst t = j"
        with same_id_same_timer[OF timerInvD(6)[OF inv] t(1) t0(1)] t0 have "t = t0" by simp
        with t(3) t0(3) ne show False by simp
      qed
      with t have "t \<in> set (filter (\<lambda>t. fst t \<noteq> j) (timers s))" by simp
      with t show ?case by (intro bexI[of _ t]) simp_all
    next
      case 6 then show ?case using timerInvD(6)[OF inv] by (simp add: distinct_map_filter)
    qed
  qed
qed

lemma timerInv_perform:
  "timerInv (fst st) \<Longrightarrow> timerInv (fst (perform a st))"
proof (cases st)
  case (Pair s hs)
  assume "timerInv (fst st)"
  with Pair have inv: "timerInv s" by simp
  show ?thesis
  proof (cases a)
    case (Subscribe m cb i)
    with Pair timerInv_subscribe[OF inv, of m cb i] show ?thesis
      by (auto split: prod.splits)
  next
    case (Unsubscribe n)
    with Pair timerInv_unsubscribe[OF inv] inv show ?thesis by simp
  next
    case (Tick env m)
    with Pair timerInv_tick[OF inv] show ?thesis by simp
  next
    case Destroy
    with Pair timerInv_destroy[OF inv] show ?thesis by simp
  qed
qed

lemma timerInv_fold:
  "timerInv (fst st) \<Longrightarrow> timerInv (fst (fold perform acts st))"
  by (induction acts arbitrary: st) (simp_all add: timerInv_perform)

lemma timerInv_runActions: "timerInv (fst (runActions acts))"
  unfolding runActions_def by (rule timerInv_fold) (simp add: timerInv_new)

lemma timerInv_count:
  assumes inv: "timerInv s"
  shows "activeTimers s m = (if subscribers s m = [] then 0 else 1)"
proof (cases "map_of (priceSubscriptions s) m")
  case None
  with timerInvD(1)[OF inv, of m] have u: "map_of (updateIntervals s) m = None" by simp
  have "filter (\<lambda>t. fst (snd t) = m) (timers s) = []"
    using timerInvD(3)[OF inv] u by (auto simp: filter_empty_conv)
  with None show ?thesis by (simp add: activeTimers_def subscribers_def)
next
  case (Some subs)
  with timerInvD(2)[OF inv Some] have ne: "subscribers s m \<noteq> []" by (simp add: subscribers_def)
  from Some timerInvD(1)[OF inv, of m] obtain j where u: "map_of (updateIntervals s) m = Some j"
    by auto
  let ?f = "filter (\<lambda>t. fst (snd t) = m) (timers s)"
  from timerInvD(5)[OF inv u] have nonempty: "?f \<noteq> []" by (auto simp: filter_empty_conv)
  have d: "distinct (map fst ?f)" using timerInvD(6)[OF inv] by (simp add: distinct_map_filter)
  have allj: "\<forall>t \<in> set ?f. fst t = j" using timerInvD(3)[OF inv] u by auto
  have "length ?f \<le> 1"
  proof (cases ?f)
    case Nil then show ?thesis by simp
  next
    case (Cons a rest)
    show ?thesis
    proof (cases rest)
      case Nil with Cons show ?thesis by simp
    next
      case (Cons b rest')
      with \<open>?f = a # rest\<close> have "?f = a # b # rest'" by simp
      with d allj show ?thesis by auto
    qed
  qed
  with nonempty have "length ?f = 1" by (cases ?f) auto
  with ne show ?thesis by (simp add: activeTimers_def)
qed

lemmas price_eval = runActions_def newPriceService_def subscribe_def unsubscribePrice_def
  subscribers_def clearInterval_def Let_def tick_def getPrice_def getPythPrice_def
  getJupiterPrice_def freshEntry_def jupiterEntry_def symbolOf_def tokenInfoOf_def objectPrototypeMembers_def TOKEN_PYTH_MAPPING_def

text \<open>
  Claim C9. After any run of subscribe calls, invocations of returned unsubscribe
  handles, ticks and \<open>destroy\<close> on a fresh service, every mint has exactly one live
  polling timer if it has a subscriber and none otherwise. In particular two subscribers
  of one mint share the single timer; after the first unsubscribes the timer is still
  set and a tick that resolves a price invokes the callback of the second; after the
  second unsubscribes the timer is cleared and its map entry is gone.
\<close>

theorem shared_polling_timer:
  "activeTimers (fst (runActions acts)) m =
     (if subscribers (fst (runActions acts)) m = [] then 0 else 1) \<and>
   timers (fst (runActions twoSubscribers)) = [(1, ''A'', 30000)] \<and>
   map ps_callback (subscribers (fst (runActions twoSubscribers)) ''A'') = [1, 2] \<and>
   timers (fst (runActions (twoSubscribers @ [Unsubscribe 0]))) = [(1, ''A'', 30000)] \<and>
   fst (tick primaryDown ''A'' (fst (runActions (twoSubscribers @ [Unsubscribe 0])))) = [2] \<and>
   timers (fst (runActions (twoSubscribers @ [Unsubscribe 0, Unsubscribe 1]))) = [] \<and>
   updateIntervals (fst (runActions (twoSubscribers @ [Unsubscribe 0, Unsubscribe 1]))) = []"
proof -
  have a: "activeTimers (fst (runActions acts)) m =
     (if subscribers (fst (runActions acts)) m = [] then 0 else 1)"
    by (rule timerInv_count[OF timerInv_runActions])
  have b: "timers (fst (runActions twoSubscribers)) = [(1, ''A'', 30000)] \<and>
    map ps_callback (subscribers (fst (runActions twoSubscribers)) ''A'') = [1, 2]"
    by (simp add: twoSubscribers_def price_eval)
  have c: "timers (fst (runActions (twoSubscribers @ [Unsubscribe 0]))) = [(1, ''A'', 30000)] \<and>
   fst (tick primaryDown ''A'' (fst (runActions (twoSubscribers @ [Unsubscribe 0])))) = [2]"
    by (simp add: twoSubscribers_def price_eval primaryDown_def)
  have d: "timers (fst (runActions (twoSubscribers @ [Unsubscribe 0, Unsubscribe 1]))) = [] \<and>
   updateIntervals (fst (runActions (twoSubscribers @ [Unsubscribe 0, Unsubscribe 1]))) = []"
    by (simp add: twoSubscribers_def price_eval)
  show ?thesis using a b c d by simp
qed

section \<open>PriceService: getPrice and getPrices\<close>

lemma getPythPrice_cache:
  "priceCache (snd (getPythPrice env m s)) = priceCache s \<and>
   cacheExpiry (snd (getPythPrice env m s)) = cacheExpiry s"
  by (subst getPythPrice_state, simp)+

lemma getJupiterPrice_snd:
  "snd (getJupiterPrice env m s) = s\<lparr>requests := requests s @ [JupiterPrices [m]]\<rparr>"
  by (simp add: getJupiterPrice_def Let_def split: option.splits sum.splits)

lemma getJupiterPrice_fst:
  "fst (getJupiterPrice env m s) =
     (case jupiterData env [m] of
        Inl e \<Rightarrow> None
      | Inr data \<Rightarrow> map_option (jupiterEntry env m) (data m))"
  by (simp add: getJupiterPrice_def Let_def split: option.splits sum.splits)

lemma fold_update_map_of:
  "distinct (map fst al) \<Longrightarrow>
     map_of (fold (\<lambda>(k, v) acc. AList.update k v acc) al acc) = map_of acc ++ map_of al"
proof (induction al arbitrary: acc)
  case Nil
  then show ?case by simp
next
  case (Cons kv al)
  obtain k v where kv: "kv = (k, v)" by (cases kv)
  from Cons.prems kv have d: "distinct (map fst al)" and nk: "map_of al k = None"
    by (auto simp: map_of_eq_None_iff)
  have "map_of (fold (\<lambda>(k, v) acc. AList.update k v acc) (kv # al) acc) =
      map_of (AList.update k v acc) ++ map_of al"
    using Cons.IH[OF d, of "AList.update k v acc"] by (simp add: kv)
  also have "\<dots> = map_of acc ++ map_of (kv # al)"
  proof (rule ext)
    fix x
    show "(map_of (AList.update k v acc) ++ map_of al) x = (map_of acc ++ map_of (kv # al)) x"
      using nk by (cases "x = k") (simp_all add: kv map_add_def AList.update_conv' split: option.splits)
  qed
  finally show ?case .
qed

lemma checkCache_fold:
  "fold (\<lambda>m (prices, uncachedMints).
             case freshEntry env s m of
               Some cached \<Rightarrow> (AList.update m cached prices, uncachedMints)
             | None \<Rightarrow> (prices, uncachedMints @ [m])) ms (pr, un) = (pr', un') \<Longrightarrow>
   un' = un @ filter (\<lambda>m. freshEntry env s m = None) ms \<and>
   (\<forall>m. map_of pr' m =
      (if m \<in> set ms \<and> freshEntry env s m \<noteq> None then freshEntry env s m else map_of pr m))"
proof (induction ms arbitrary: pr un)
  case Nil
  then show ?case by simp
next
  case (Cons a ms)
  show ?case
  proof (cases "freshEntry env s a")
    case None
    with Cons.prems Cons.IH[of pr "un @ [a]"] show ?thesis by auto
  next
    case (Some c)
    with Cons.prems Cons.IH[of "AList.update a c pr" un] show ?thesis
      by (auto simp: AList.update_conv')
  qed
qed

lemma checkCache_eq:
  "\<exists>pr. checkCache env s ms = (pr, uncachedOf env s ms) \<and>
     (\<forall>m. map_of pr m = (if m \<in> set ms then freshEntry env s m else None))"
proof -
  obtain pr un where c: "checkCache env s ms = (pr, un)" by (cases "checkCache env s ms")
  from checkCache_fold[OF c[unfolded checkCache_def]] c show ?thesis
    by (auto simp: uncachedOf_def)
qed

lemma jupiter_fold_distinct:
  "distinct (map fst acc) \<Longrightarrow>
   distinct (map fst (fold (\<lambda>m prices. case data m of
                               Some p \<Rightarrow> AList.update m (jupiterEntry env m p) prices
                             | None \<Rightarrow> prices) ms acc))"
  by (induction ms arbitrary: acc) (auto simp: AList.distinct_update split: option.splits)

lemma jupiter_fold_map_of:
  "map_of (fold (\<lambda>m prices. case data m of
                               Some p \<Rightarrow> AList.update m (jupiterEntry env m p) prices
                             | None \<Rightarrow> prices) ms acc) m' =
     (if m' \<in> set ms \<and> data m' \<noteq> None then map_option (jupiterEntry env m') (data m')
      else map_of acc m')"
  by (induction ms arbitrary: acc) (auto simp: AList.update_conv' split: option.splits)

lemma getJupiterPrices_snd:
  "snd (getJupiterPrices env ms s) = s\<lparr>requests := requests s @ [JupiterPrices ms]\<rparr>"
  by (simp add: getJupiterPrices_def Let_def split: sum.splits)

lemma getJupiterPrices_fst:
  "distinct (map fst (fst (getJupiterPrices env ms s))) \<and>
   map_of (fst (getJupiterPrices env ms s)) m =
     (if m \<in> set ms
      then (case jupiterData env ms of
              Inl e \<Rightarrow> None
            | Inr data \<Rightarrow> map_option (jupiterEntry env m) (data m))
      else None)"
  by (auto simp: getJupiterPrices_def Let_def jupiter_fold_distinct jupiter_fold_map_of
      split: sum.splits)

text \<open>
  Claim C8. \<open>getPrices\<close> splits the requested mints into those with a fresh cache entry
  and the rest (\<open>uncachedOf\<close>). With no uncached mint it sends nothing; otherwise it
  sends exactly one request, the Jupiter batch request for exactly the uncached mints
  (Jupiter is the only source \<open>getPrices\<close> asks; Pyth is not consulted). The result maps
  a requested mint with a fresh entry to that entry and an uncached mint to the entry
  fetched for it, and has no entry for a mint that was not resolved or not requested.
  The fetched entries are merged into the cache, whose other entries are unchanged.
\<close>

theorem getPrices_batches_uncached:
  "requests (snd (getPrices env ms s)) =
     requests s @ (if uncachedOf env s ms = [] then [] else [JupiterPrices (uncachedOf env s ms)]) \<and>
   map_of (fst (getPrices env ms s)) m =
     (if m \<in> set ms
      then (case freshEntry env s m of Some cached \<Rightarrow> Some cached | None \<Rightarrow> fetchedEntry env s ms m)
      else None) \<and>
   map_of (priceCache (snd (getPrices env ms s))) m =
     (case fetchedEntry env s ms m of Some p \<Rightarrow> Some p | None \<Rightarrow> map_of (priceCache s) m)"
proof -
  from checkCache_eq[of env s ms] obtain pr where
    c: "checkCache env s ms = (pr, uncachedOf env s ms)"
    and pr: "\<And>m. map_of pr m = (if m \<in> set ms then freshEntry env s m else None)" by blast
  show ?thesis
  proof (cases "uncachedOf env s ms = []")
    case True
    then have all: "\<And>m. m \<in> set ms \<Longrightarrow> freshEntry env s m \<noteq> None"
      by (auto simp: uncachedOf_def filter_empty_conv)
    from True have f: "fetchedEntry env s ms m = None" by (simp add: fetchedEntry_def)
    show ?thesis using True c pr[of m] all[of m] f
      by (auto simp: getPrices_def split: option.splits)
  next
    case False
    obtain jp s1 where j: "getJupiterPrices env (uncachedOf env s ms) s = (jp, s1)"
      by (cases "getJupiterPrices env (uncachedOf env s ms) s")
    from getJupiterPrices_snd[of env "uncachedOf env s ms" s] j
    have s1: "s1 = s\<lparr>requests := requests s @ [JupiterPrices (uncachedOf env s ms)]\<rparr>" by simp
    from getJupiterPrices_fst[of env "uncachedOf env s ms" s] j
    have d: "distinct (map fst jp)"
      and mj: "\<And>m. map_of jp m = fetchedEntry env s ms m"
      by (simp_all add: fetchedEntry_def)
    have g: "getPrices env ms s =
        (fold (\<lambda>(m, p) prices. AList.update m p prices) jp pr,
         s1\<lparr>priceCache := fold (\<lambda>(m, p) cache. AList.update m p cache) jp (priceCache s1)\<rparr>)"
      using False c j by (simp add: getPrices_def)
    have unc: "fetchedEntry env s ms m \<noteq> None \<Longrightarrow> m \<in> set ms \<and> freshEntry env s m = None"
      by (auto simp: fetchedEntry_def uncachedOf_def split: if_splits)
    have r: "requests (snd (getPrices env ms s)) =
        requests s @ [JupiterPrices (uncachedOf env s ms)]"
      by (simp add: g s1)
    have a: "map_of (fst (getPrices env ms s)) m =
     (if m \<in> set ms
      then (case freshEntry env s m of Some cached \<Rightarrow> Some cached | None \<Rightarrow> fetchedEntry env s ms m)
      else None)"
      using unc pr[of m] mj[of m]
      by (auto simp: g fold_update_map_of[OF d] map_add_def split: option.splits)
    have b: "map_of (priceCache (snd (getPrices env ms s))) m =
     (case fetchedEntry env s ms m of Some p \<Rightarrow> Some p | None \<Rightarrow> map_of (priceCache s) m)"
      using mj[of m] by (simp add: g fold_update_map_of[OF d] map_add_def s1 split: option.splits)
    show ?thesis using False r a b by simp
  qed
qed

theorem getPrices_batches_uncached_witness:
  "uncachedOf primaryDown cachedA [''A'', ''B''] = [''B''] \<and>
   requests (snd (getPrices primaryDown [''A'', ''B''] cachedA)) = [JupiterPrices [''B'']] \<and>
   map_of (fst (getPrices primaryDown [''A'', ''B''] cachedA)) ''A'' = Some freshA \<and>
   map_of (fst (getPrices primaryDown [''A'', ''B''] cachedA)) ''B'' =
     Some (jupiterEntry primaryDown ''B'' (Finite (601 / 4))) \<and>
   map_of (fst (getPrices primaryDown [''A'', ''B''] cachedA)) ''C'' = None \<and>
   requests (snd (getPrices (allDown 1000000) [''X'', ''Y''] newPriceService)) =
     [JupiterPrices [''X'', ''Y'']] \<and>
   map_of (fst (getPrices (allDown 1000000) [''X'', ''Y''] newPriceService)) ''X'' = None"
  using getPrices_batches_uncached [of primaryDown "[''A'', ''B'']" cachedA "''A''"]
    getPrices_batches_uncached [of primaryDown "[''A'', ''B'']" cachedA "''B''"]
    getPrices_batches_uncached [of primaryDown "[''A'', ''B'']" cachedA "''C''"]
    getPrices_batches_uncached [of "allDown 1000000" "[''X'', ''Y'']" newPriceService "''X''"]
  by (simp add: uncachedOf_def fetchedEntry_def freshEntry_def cachedA_def freshA_def
      newPriceService_def primaryDown_def allDown_def)



lemma getPrice_jupiter:
  assumes "freshEntry env s m = None" and "fst (getPythPrice env m s) = None"
    and "fst (getJupiterPrice env m (snd (getPythPrice env m s))) = Some p"
  shows "getPrice env m s =
     (Some p, (snd (getPythPrice env m s))
        \<lparr>requests := requests (snd (getPythPrice env m s)) @ [JupiterPrices [m]],
         priceCache := AList.update m p (priceCache s)\<rparr>)"
proof -
  obtain r1 s1 where p1: "getPythPrice env m s = (r1, s1)" by (cases "getPythPrice env m s")
  obtain r2 s2 where p2: "getJupiterPrice env m s1 = (r2, s2)" by (cases "getJupiterPrice env m s1")
  from getJupiterPrice_snd[of env m s1] p2
  have s2: "s2 = s1\<lparr>requests := requests s1 @ [JupiterPrices [m]]\<rparr>" by simp
  from getPythPrice_cache[of env m s] p1 have c: "priceCache s1 = priceCache s" by simp
  from assms p1 p2 have "r1 = None" "r2 = Some p" by simp_all
  then show ?thesis using assms(1) p1 p2 c by (simp add: getPrice_def s2)
qed

lemma getPrice_none:
  assumes "freshEntry env s m = None" and "fst (getPythPrice env m s) = None"
    and "fst (getJupiterPrice env m (snd (getPythPrice env m s))) = None"
  shows "getPrice env m s =
     (None, (snd (getPythPrice env m s))
        \<lparr>requests := requests (snd (getPythPrice env m s)) @ [JupiterPrices [m]]\<rparr>)"
proof -
  obtain r1 s1 where p1: "getPythPrice env m s = (r1, s1)" by (cases "getPythPrice env m s")
  obtain r2 s2 where p2: "getJupiterPrice env m s1 = (r2, s2)" by (cases "getJupiterPrice env m s1")
  from getJupiterPrice_snd[of env m s1] p2
  have s2: "s2 = s1\<lparr>requests := requests s1 @ [JupiterPrices [m]]\<rparr>" by simp
  from assms p1 p2 have "r1 = None" "r2 = None" by simp_all
  then show ?thesis using assms(1) p1 p2 by (simp add: getPrice_def s2)
qed



lemma sol_lookup: "tokenInfoOf solMint =
   Some (Some (''SOL'', ''0xef0d8b6fda2ceba41da15d4095d1da392a0d2f8ed0c6c7bc0f4cfac8c280b56d''))"
  by (simp add: tokenInfoOf_def TOKEN_PYTH_MAPPING_def solMint_def)

text \<open>For the name of an inherited member the request is sent and nothing comes back.\<close>

lemma getPythPrice_inherited_member:
  "getPythPrice env ''constructor'' newPriceService =
     (None, newPriceService\<lparr>requests := [PythGetData]\<rparr>)"
  by (simp add: getPythPrice_def Let_def tokenInfoOf_def objectPrototypeMembers_def
      TOKEN_PYTH_MAPPING_def newPriceService_def split: sum.splits)



text \<open>On the Pyth path a price that is \<open>NaN\<close> is dropped.\<close>

lemma getPythPrice_drops_nan:
  "fst (getPythPrice
          (garbled\<lparr>pythData := Inr (\<lambda>sym. Some \<lparr>pyth_price = Some NaN, pyth_confidence = None\<rparr>)\<rparr>)
          solMint newPriceService) = None"
  by (simp add: getPythPrice_def Let_def sol_lookup newPriceService_def)

text \<open>
  Claim C10 says that every entry in the price cache has a finite, non-negative price,
  a non-finite price being rejected before it enters the cache. The run of the code on
  a Jupiter answer whose price field does not parse: \<open>getPrice\<close> and \<open>getPrices\<close>
  both store and return an entry whose price is \<open>NaN\<close>, a value that \<open>validatePrice\<close>
  rejects.
\<close>

theorem unparsed_price_enters_cache:
  "fst (getPrice garbled ''X'' newPriceService) = Some (jupiterEntry garbled ''X'' NaN) \<and>
   map_of (priceCache (snd (getPrice garbled ''X'' newPriceService))) ''X'' =
     Some (jupiterEntry garbled ''X'' NaN) \<and>
   map_of (priceCache (snd (getPrices garbled [''X''] newPriceService))) ''X'' =
     Some (jupiterEntry garbled ''X'' NaN) \<and>
   price (jupiterEntry garbled ''X'' NaN) = NaN \<and>
   \<not> isFinite (price (jupiterEntry garbled ''X'' NaN)) \<and>
   validatePrice (Num (price (jupiterEntry garbled ''X'' NaN))) = Inl PriceMustBeFinite"
proof -
  have a: "getPrice garbled ''X'' newPriceService =
     (Some (jupiterEntry garbled ''X'' NaN),
      newPriceService\<lparr>requests := [JupiterPrices [''X'']],
        priceCache := [(''X'', jupiterEntry garbled ''X'' NaN)]\<rparr>)"
    by (simp add: getPrice_def getPythPrice_def getJupiterPrice_def freshEntry_def Let_def
        tokenInfoOf_def objectPrototypeMembers_def TOKEN_PYTH_MAPPING_def garbled_def newPriceService_def)
  have b: "map_of (priceCache (snd (getPrices garbled [''X''] newPriceService))) ''X'' =
     Some (jupiterEntry garbled ''X'' NaN)"
    by (simp add: getPrices_def checkCache_def getJupiterPrices_def freshEntry_def Let_def
        garbled_def newPriceService_def)
  show ?thesis using a b by (simp add: jupiterEntry_def)
qed

section \<open>Degraded reads\<close>

lemma tokenCheckCache_fold:
  "fold (\<lambda>m (prices, uncachedMints).
             case tokenFresh env s m of
               Some cached \<Rightarrow> (AList.update m cached prices, uncachedMints)
             | None \<Rightarrow> (prices, uncachedMints @ [m])) ms (pr, un) = (pr', un') \<Longrightarrow>
   un' = un @ filter (\<lambda>m. tokenFresh env s m = None) ms"
proof (induction ms arbitrary: pr un)
  case Nil
  then show ?case by simp
next
  case (Cons a ms)
  show ?case
  proof (cases "tokenFresh env s a")
    case None
    with Cons.prems Cons.IH[of pr "un @ [a]"] show ?thesis by auto
  next
    case (Some c)
    with Cons.prems Cons.IH[of "AList.update a c pr" un] show ?thesis by auto
  qed
qed

lemma tokenCheckCache_snd:
  "snd (tokenCheckCache env s ms) = filter (\<lambda>m. tokenFresh env s m = None) ms"
proof -
  obtain pr un where c: "tokenCheckCache env s ms = (pr, un)" by (cases "tokenCheckCache env s ms")
  from tokenCheckCache_fold[OF c[unfolded tokenCheckCache_def]] c show ?thesis by simp
qed

lemma stale_fold_map_of:
  "map_of (fold (\<lambda>m cachedPrices.
             case map_of (tokenPriceCache s) m of
               Some cached \<Rightarrow>
                 if catchClock env - tp_lastUpdated cached < tokenCacheExpiry s * 2
                 then AList.update m cached cachedPrices else cachedPrices
             | None \<Rightarrow> cachedPrices) ms acc) m' =
     (if m' \<in> set ms \<and>
         (\<exists>c. map_of (tokenPriceCache s) m' = Some c \<and>
              catchClock env - tp_lastUpdated c < tokenCacheExpiry s * 2)
      then map_of (tokenPriceCache s) m' else map_of acc m')"
  by (induction ms arbitrary: acc) (auto simp: AList.update_conv' split: option.splits)

lemma staleWithinTolerance_map_of:
  "map_of (staleWithinTolerance env s ms) m =
     (if m \<in> set ms
      then (case map_of (tokenPriceCache s) m of
              Some c \<Rightarrow> if catchClock env - tp_lastUpdated c < tokenCacheExpiry s * 2
                        then Some c else None
            | None \<Rightarrow> None)
      else None)"
  by (auto simp: staleWithinTolerance_def stale_fold_map_of split: option.splits)

lemma getTokenPrices_catch:
  assumes "filter (\<lambda>m. tokenFresh env ts m = None) ms \<noteq> []"
    and "jupiterData env (filter (\<lambda>m. tokenFresh env ts m = None) ms) = Inl e"
  shows "getTokenPrices env ms ts = (staleWithinTolerance env ts ms, ts)"
proof -
  obtain pr un where c: "tokenCheckCache env ts ms = (pr, un)" by (cases "tokenCheckCache env ts ms")
  with tokenCheckCache_snd[of env ts ms]
  have un: "un = filter (\<lambda>m. tokenFresh env ts m = None) ms" by simp
  show ?thesis using assms by (simp add: getTokenPrices_def c un)
qed

text \<open>
  Claim C7 says that when no source succeeds \<open>getPrice\<close> serves a stale cache entry
  whose age is within twice the expiry window. With both sources failing and an entry
  that is 40 seconds old (expiry 30 seconds) the result of \<open>getPrice\<close> is null.
\<close>

theorem stale_entry_not_served_counterexample:
  "map_of (priceCache staleService) ''X'' = Some staleEntry \<and>
   clock (allDown 1000000) - lastUpdated staleEntry < 2 * cacheExpiry staleService \<and>
   fst (getPrice (allDown 1000000) ''X'' staleService) = None"
  by (simp add: getPrice_def getPythPrice_def getJupiterPrice_def freshEntry_def Let_def
      tokenInfoOf_def objectPrototypeMembers_def TOKEN_PYTH_MAPPING_def allDown_def staleService_def staleEntry_def newPriceService_def)

text \<open>
  Claim C7, amended. A failing source is a value, never a thrown error. In
  \<open>PriceService.getPrice\<close>, when there is no fresh entry and both sources fail, the result
  is null and the cache is unchanged, whatever stale entry it holds; when Pyth gives
  nothing and Jupiter answers, the Jupiter entry is returned; a tick whose \<open>getPrice\<close>
  is null invokes no callback. A stale entry is served only by
  \<open>TokenService.getTokenPrices\<close>: when its Jupiter request throws, the result holds, for
  each requested mint, the cached entry if its age is below twice the expiry, and
  nothing otherwise, and the cache is unchanged.
\<close>

theorem degrade_to_next_source_or_null:
  "(freshEntry env s m = None \<and> pythData env = Inl ea \<and> jupiterData env [m] = Inl eb \<longrightarrow>
      fst (getPrice env m s) = None \<and> priceCache (snd (getPrice env m s)) = priceCache s) \<and>
   (freshEntry env s m = None \<and> fst (getPythPrice env m s) = None \<and>
    jupiterData env [m] = Inr data \<and> data m = Some q \<longrightarrow>
      fst (getPrice env m s) = Some (jupiterEntry env m q)) \<and>
   (fst (getPrice env m s) = None \<longrightarrow> fst (tick env m s) = []) \<and>
   (filter (\<lambda>m. tokenFresh env ts m = None) ms \<noteq> [] \<and>
    jupiterData env (filter (\<lambda>m. tokenFresh env ts m = None) ms) = Inl e \<longrightarrow>
      snd (getTokenPrices env ms ts) = ts \<and>
      map_of (fst (getTokenPrices env ms ts)) m =
        (if m \<in> set ms
         then (case map_of (tokenPriceCache ts) m of
                 Some c \<Rightarrow> if catchClock env - tp_lastUpdated c < tokenCacheExpiry ts * 2
                           then Some c else None
               | None \<Rightarrow> None)
         else None))"
proof -
  have py: "fst (getPythPrice env m s) = None" if "pythData env = Inl ea"
    using that by (simp add: getPythPrice_def Let_def split: option.splits)
  have a: "fst (getPrice env m s) = None \<and> priceCache (snd (getPrice env m s)) = priceCache s"
    if "freshEntry env s m = None" "pythData env = Inl ea" "jupiterData env [m] = Inl eb"
    using getPrice_none[OF that(1) py[OF that(2)]] that(3) getPythPrice_cache[of env m s]
    by (simp add: getJupiterPrice_fst)
  have b: "fst (getPrice env m s) = Some (jupiterEntry env m q)"
    if "freshEntry env s m = None" "fst (getPythPrice env m s) = None"
      "jupiterData env [m] = Inr data" "data m = Some q"
    using getPrice_jupiter[OF that(1,2), of "jupiterEntry env m q"] that(3,4)
    by (simp add: getJupiterPrice_fst)
  have c: "fst (tick env m s) = []" if "fst (getPrice env m s) = None"
    using that by (cases "getPrice env m s") (simp add: tick_def)
  show ?thesis
    using a b c getTokenPrices_catch[of env ts ms e]
    by (simp add: staleWithinTolerance_map_of)
qed

theorem degrade_to_next_source_or_null_witness:
  "freshEntry (allDown 1000000) staleService ''X'' = None \<and>
   fst (getPrice (allDown 1000000) ''X'' staleService) = None \<and>
   fst (getPrice primaryDown ''X'' staleService) =
     Some (jupiterEntry primaryDown ''X'' (Finite (601 / 4))) \<and>
   fst (tick (allDown 1000000) ''X'' staleService) = [] \<and>
   filter (\<lambda>m. tokenFresh (allDown 1000000) staleTokenService m = None) [''X'', ''Y''] = [''X'', ''Y''] \<and>
   map_of (fst (getTokenPrices (allDown 1000000) [''X'', ''Y''] staleTokenService)) ''X'' =
     Some staleTokenEntry \<and>
   map_of (fst (getTokenPrices (allDown 1000000) [''X'', ''Y''] staleTokenService)) ''Y'' = None"
proof -
  have f1: "freshEntry (allDown 1000000) staleService ''X'' = None"
    by (simp add: freshEntry_def allDown_def staleService_def staleEntry_def newPriceService_def)
  have f2: "freshEntry primaryDown staleService ''X'' = None"
    by (simp add: freshEntry_def primaryDown_def staleService_def staleEntry_def newPriceService_def)
  have p2: "fst (getPythPrice primaryDown ''X'' staleService) = None"
    by (simp add: getPythPrice_def tokenInfoOf_def objectPrototypeMembers_def TOKEN_PYTH_MAPPING_def staleService_def newPriceService_def)
  have t: "filter (\<lambda>m. tokenFresh (allDown 1000000) staleTokenService m = None) [''X'', ''Y''] =
      [''X'', ''Y'']"
    by (simp add: tokenFresh_def allDown_def staleTokenService_def staleTokenEntry_def
        newTokenService_def)
  from degrade_to_next_source_or_null
      [where env = "allDown 1000000" and s = staleService and m = "''X''"
         and ea = UpstreamError and eb = UpstreamError and ts = staleTokenService
         and ms = "[''X'', ''Y'']" and e = UpstreamError]
    degrade_to_next_source_or_null
      [where env = "allDown 1000000" and m = "''Y''" and ts = staleTokenService
         and ms = "[''X'', ''Y'']" and e = UpstreamError]
    degrade_to_next_source_or_null
      [where env = primaryDown and s = staleService and m = "''X''"
         and data = "\<lambda>m. if m \<in> set [''X''] then Some (Finite (601 / 4)) else None"
         and q = "Finite (601 / 4)"]
    f1 f2 p2 t
  show ?thesis
    by (simp add: allDown_def primaryDown_def staleTokenService_def staleTokenEntry_def
        newTokenService_def)
qed

end
